theory Spec2Isabelle
  imports Main "HOL-Library.Sublist"
begin

section \<open>Python values\<close>

text \<open>
  A Python \<^verbatim>\<open>str\<close> is a sequence of Unicode code points and \<^verbatim>\<open>len\<close> counts code points,
  so a string is a list of code points here. \<open>lit\<close> reads an ASCII literal of the source.
\<close>

type_synonym pystr = "nat list"

definition lit :: "string \<Rightarrow> pystr" where
  "lit s = map of_char s"

text \<open>The newline character, \<^verbatim>\<open>"\n"\<close>.\<close>

definition NL :: nat where
  "NL = 10"

text \<open>
  The values that the tools put into their result dictionaries. A dictionary is an association
  list in insertion order; keys are values (the source uses both strings and integers as keys).
\<close>

datatype pyval =
    VNone
  | VBool bool
  | VInt int
  | VStr pystr
  | VList "pyval list"
  | VDict "(pyval \<times> pyval) list"

type_synonym pydict = "(pyval \<times> pyval) list"

abbreviation K :: "string \<Rightarrow> pyval" where
  "K s \<equiv> VStr (lit s)"

text \<open>\<^verbatim>\<open>d.get(k)\<close>, with \<open>None\<close> for an absent key.\<close>

fun dict_get :: "pydict \<Rightarrow> pyval \<Rightarrow> pyval option" where
  "dict_get [] k = None"
| "dict_get ((k', v) # d) k = (if k' = k then Some v else dict_get d k)"

text \<open>\<^verbatim>\<open>d[k] = v\<close>: an existing key keeps its position, a new key goes last.\<close>

fun dict_set :: "pydict \<Rightarrow> pyval \<Rightarrow> pyval \<Rightarrow> pydict" where
  "dict_set [] k v = [(k, v)]"
| "dict_set ((k', v') # d) k v = (if k' = k then (k', v) # d else (k', v') # dict_set d k v)"

text \<open>A dictionary display \<^verbatim>\<open>{k1: v1, ...}\<close> and \<^verbatim>\<open>d.update(m)\<close> insert the items in order.\<close>

definition dict_update :: "pydict \<Rightarrow> pydict \<Rightarrow> pydict" where
  "dict_update d m = foldl (\<lambda>acc (k, v). dict_set acc k v) d m"

definition dict_display :: "(pyval \<times> pyval) list \<Rightarrow> pydict" where
  "dict_display items = dict_update [] items"

text \<open>The exceptions that the modelled code can raise.\<close>

datatype py_error =
    IndexError
  | ZeroDivisionError
  | AttributeError
  | UnicodeEncodeError
  | UpstreamError pystr

subsection \<open>Integers as text\<close>

text \<open>\<^verbatim>\<open>str(n)\<close> for an integer: decimal digits, with a minus sign when negative.\<close>

fun digits :: "nat \<Rightarrow> pystr" where
  "digits n = (if n < 10 then [48 + n] else digits (n div 10) @ [48 + n mod 10])"

declare digits.simps [simp del]

definition str_int :: "int \<Rightarrow> pystr" where
  "str_int i = (if i < 0 then 45 # digits (nat (- i)) else digits (nat i))"

text \<open>
  The format specification \<^verbatim>\<open>{n:,}\<close>: the digits in groups of three, counted from the right,
  with a comma between the groups.
\<close>

fun group_rev :: "pystr \<Rightarrow> pystr" where
  "group_rev (a # b # c # d # ds) = a # b # c # 44 # group_rev (d # ds)"
| "group_rev ds = ds"

definition format_comma :: "int \<Rightarrow> pystr" where
  "format_comma i =
     (let grouped = (\<lambda>n. rev (group_rev (rev (digits n))))
      in if i < 0 then 45 # grouped (nat (- i)) else grouped (nat i))"

text \<open>\<^verbatim>\<open>str(xs)\<close> for a list of integers: \<^verbatim>\<open>[1, 2, 3]\<close>.\<close>

fun join :: "pystr \<Rightarrow> pystr list \<Rightarrow> pystr" where
  "join sep [] = []"
| "join sep [x] = x"
| "join sep (x # y # ys) = x @ sep @ join sep (y # ys)"

definition str_int_list :: "int list \<Rightarrow> pystr" where
  "str_int_list xs = lit ''['' @ join (lit '', '') (map str_int xs) @ lit '']''"

subsection \<open>Slices and list assignment\<close>

text \<open>
  A slice bound is clamped as Python does: a negative bound counts from the end, and a bound
  beyond either end stops there.
\<close>

definition clamp_index :: "nat \<Rightarrow> int \<Rightarrow> nat" where
  "clamp_index n i =
     (if i < 0 then (if i + int n < 0 then 0 else nat (i + int n))
      else if int n < i then n else nat i)"

definition py_slice :: "'a list \<Rightarrow> int option \<Rightarrow> int option \<Rightarrow> 'a list" where
  "py_slice xs start stop =
     (let n = length xs;
          a = (case start of None \<Rightarrow> 0 | Some i \<Rightarrow> clamp_index n i);
          b = (case stop of None \<Rightarrow> n | Some j \<Rightarrow> clamp_index n j)
      in take (b - a) (drop a xs))"

text \<open>\<^verbatim>\<open>xs[i] = v\<close>: a negative index counts from the end, an index out of range raises.\<close>

definition list_setitem :: "'a list \<Rightarrow> int \<Rightarrow> 'a \<Rightarrow> py_error + 'a list" where
  "list_setitem xs i v =
     (let n = int (length xs); j = (if i < 0 then i + n else i)
      in if 0 \<le> j \<and> j < n then Inr (xs[nat j := v]) else Inl IndexError)"

subsection \<open>String operations\<close>

text \<open>
  \<^verbatim>\<open>s.split(c)\<close> for a one-character separator \<open>c\<close>, scanning \<open>s\<close> with the piece read
  so far: the result is never empty and no piece holds \<open>c\<close>.
\<close>

fun split_from :: "nat \<Rightarrow> pystr \<Rightarrow> pystr \<Rightarrow> pystr list" where
  "split_from c piece [] = [piece]"
| "split_from c piece (x # xs) =
     (if x = c then piece # split_from c [] xs else split_from c (piece @ [x]) xs)"

definition split_char :: "nat \<Rightarrow> pystr \<Rightarrow> pystr list" where
  "split_char c s = split_from c [] s"

text \<open>
  The characters for which \<^verbatim>\<open>str.isspace\<close> holds; \<^verbatim>\<open>strip()\<close> without an argument
  removes them from both ends.
\<close>

definition is_space :: "nat \<Rightarrow> bool" where
  "is_space c \<longleftrightarrow>
     (9 \<le> c \<and> c \<le> 13) \<or> (28 \<le> c \<and> c \<le> 32) \<or> c = 133 \<or> c = 160 \<or> c = 5760 \<or>
     (8192 \<le> c \<and> c \<le> 8202) \<or> c = 8232 \<or> c = 8233 \<or> c = 8239 \<or> c = 8287 \<or> c = 12288"

definition strip :: "pystr \<Rightarrow> pystr" where
  "strip s = rev (dropWhile is_space (rev (dropWhile is_space s)))"

definition startswith :: "pystr \<Rightarrow> pystr \<Rightarrow> bool" where
  "startswith s p \<longleftrightarrow> take (length p) s = p"

text \<open>
  \<^verbatim>\<open>s.encode("utf-8")\<close> raises \<^verbatim>\<open>UnicodeEncodeError\<close> exactly when \<open>s\<close> holds a surrogate code
  point (U+D800 to U+DFFF); every other code point of a \<^verbatim>\<open>str\<close> has a UTF-8 encoding.
\<close>

definition utf8_encodable :: "pystr \<Rightarrow> bool" where
  "utf8_encodable s \<longleftrightarrow> list_all (\<lambda>c. \<not> (55296 \<le> c \<and> c \<le> 57343)) s"

text \<open>\<^verbatim>\<open>sub in s\<close>: \<open>sub\<close> occurs in \<open>s\<close> as a contiguous piece.\<close>

fun str_contains :: "pystr \<Rightarrow> pystr \<Rightarrow> bool" where
  "str_contains sub [] \<longleftrightarrow> sub = []"
| "str_contains sub (x # xs) \<longleftrightarrow> startswith (x # xs) sub \<or> str_contains sub xs"

section \<open>Databricks server: truncation\<close>

definition MAX_TEXT_SIZE :: int where
  "MAX_TEXT_SIZE = 100000"

definition MAX_CELL_CONTENT :: int where
  "MAX_CELL_CONTENT = 50000"

definition MAX_LIST_ITEMS :: int where
  "MAX_LIST_ITEMS = 100"

definition MAX_LOG_SIZE :: int where
  "MAX_LOG_SIZE = 80000"

text \<open>The suffix that \<open>truncate_text\<close> appends to a truncated text.\<close>

definition truncate_suffix :: "int \<Rightarrow> nat \<Rightarrow> pystr" where
  "truncate_suffix max_size total_size =
     [NL, NL] @ lit ''[... truncated, showing '' @ format_comma max_size @ lit '' of '' @
     format_comma (int total_size) @ lit '' chars]''"

definition truncate_text :: "pystr \<Rightarrow> int \<Rightarrow> pystr \<Rightarrow> pystr \<times> pydict" where
  "truncate_text text max_size field_name =
     (if text = [] \<or> int (length text) \<le> max_size then (text, [])
      else
        let truncated = py_slice text None (Some max_size);
            metadata = dict_display
              [(VStr (field_name @ lit ''_truncated''), VBool True),
               (VStr (field_name @ lit ''_total_size''), VInt (int (length text))),
               (VStr (field_name @ lit ''_shown_size''), VInt max_size)];
            suffix = truncate_suffix max_size (length text)
        in (truncated @ suffix, metadata))"

section \<open>Databricks server: notebook cells\<close>

definition CELL_SEPARATOR :: pystr where
  "CELL_SEPARATOR = lit ''# COMMAND ----------''"

text \<open>
  The loop of \<^verbatim>\<open>_parse_notebook_cells\<close> over the lines of the notebook, with the cells
  collected so far and the lines of the current cell.
\<close>

fun parse_lines :: "pystr list \<Rightarrow> pystr list \<Rightarrow> pystr list \<Rightarrow> pystr list" where
  "parse_lines [] cells current_cell =
     (if current_cell \<noteq> [] then cells @ [join [NL] current_cell] else cells)"
| "parse_lines (line # rest) cells current_cell =
     (if startswith (strip line) (lit ''# COMMAND ----------'') then
        (if current_cell \<noteq> [] then parse_lines rest (cells @ [join [NL] current_cell]) []
         else parse_lines rest cells current_cell)
      else parse_lines rest cells (current_cell @ [line]))"

definition parse_notebook_cells :: "pystr \<Rightarrow> pystr list" where
  "parse_notebook_cells content = parse_lines (split_char NL content) [] []"

definition reconstruct_notebook :: "pystr list \<Rightarrow> pystr" where
  "reconstruct_notebook cells = join ([NL, NL] @ CELL_SEPARATOR @ [NL, NL]) cells"

definition validate_cell_content :: "pystr \<Rightarrow> bool \<times> pystr" where
  "validate_cell_content content =
     (if str_contains (lit ''# COMMAND ----------'') content \<or>
         (str_contains (lit ''# COMMAND'') content \<and> str_contains (lit ''----------'') content)
      then (False,
            lit ''Cell content cannot contain '' @ [39] @ lit ''# COMMAND ----------'' @ [39] @
            lit '' separator - this would corrupt notebook structure'')
      else (True, []))"

subsection \<open>The workspace\<close>

text \<open>
  The workspace client as a store of notebook sources by path. \<^verbatim>\<open>export\<close> raises for a path
  that holds no notebook; \<^verbatim>\<open>import_\<close> with \<^verbatim>\<open>overwrite=True\<close> replaces the source at the
  path, and every call of it is logged. A stored source is the text that the UTF-8 decoding of
  an export yields. The base64 transport encoding is decoded by the receiving side to the
  bytes that were encoded and is left out; the UTF-8 encoding that comes before it, which can
  raise, is \<open>utf8_encodable\<close>.
\<close>

record workspace =
  notebooks :: "pystr \<Rightarrow> pystr option"
  import_calls :: "(pystr \<times> pystr) list"

definition workspace_export :: "workspace \<Rightarrow> pystr \<Rightarrow> py_error + pystr" where
  "workspace_export ws path =
     (case notebooks ws path of
        None \<Rightarrow> Inl (UpstreamError path)
      | Some source \<Rightarrow> Inr source)"

definition workspace_import :: "workspace \<Rightarrow> pystr \<Rightarrow> pystr \<Rightarrow> workspace" where
  "workspace_import ws path source =
     ws\<lparr>notebooks := (notebooks ws)(path \<mapsto> source),
        import_calls := import_calls ws @ [(path, source)]\<rparr>"

subsection \<open>Updating cells\<close>

text \<open>One element of \<^verbatim>\<open>updates\<close>: \<^verbatim>\<open>{"index": ..., "content": ...}\<close>.\<close>

record cell_update =
  u_index :: int
  u_content :: pystr

definition error_result :: "pystr \<Rightarrow> pydict" where
  "error_result msg = [(K ''status'', K ''error''), (K ''message'', VStr msg)]"

definition out_of_bounds_message :: "int \<Rightarrow> nat \<Rightarrow> pystr" where
  "out_of_bounds_message idx n =
     lit ''Cell index '' @ str_int idx @ lit '' out of bounds (notebook has '' @
     str_int (int n) @ lit '' cells, indices 0-'' @ str_int (int n - 1) @ lit '')''"

definition invalid_content_message :: "int \<Rightarrow> pystr \<Rightarrow> pystr" where
  "invalid_content_message idx error_msg =
     lit ''Invalid content for cell '' @ str_int idx @ lit '': '' @ error_msg"

text \<open>The validation loop: the error result of the first update that fails a check.\<close>

fun validate_updates :: "pystr list \<Rightarrow> cell_update list \<Rightarrow> pydict option" where
  "validate_updates cells [] = None"
| "validate_updates cells (u # rest) =
     (let idx = u_index u; cell_content = u_content u
      in if idx < 0 \<or> idx \<ge> int (length cells)
         then Some (error_result (out_of_bounds_message idx (length cells)))
         else
           (case validate_cell_content cell_content of
              (valid, error_msg) \<Rightarrow>
                if \<not> valid then Some (error_result (invalid_content_message idx error_msg))
                else validate_updates cells rest))"

text \<open>The loop that applies the updates, in the order of the list.\<close>

fun apply_updates ::
  "pystr list \<Rightarrow> cell_update list \<Rightarrow> int list \<Rightarrow> py_error + (pystr list \<times> int list)" where
  "apply_updates cells [] updated_indices = Inr (cells, updated_indices)"
| "apply_updates cells (u # rest) updated_indices =
     (case list_setitem cells (u_index u) (u_content u) of
        Inl e \<Rightarrow> Inl e
      | Inr cells' \<Rightarrow> apply_updates cells' rest (updated_indices @ [u_index u]))"

text \<open>
  The list \<^verbatim>\<open>updates_to_apply\<close>. It is built after the checks of the input combination, so
  in single mode both \<open>cell_index\<close> and \<open>new_content\<close> are present, and otherwise \<open>updates\<close> is.
\<close>

definition updates_to_apply ::
  "int option \<Rightarrow> pystr option \<Rightarrow> cell_update list option \<Rightarrow> cell_update list" where
  "updates_to_apply cell_index new_content updates =
     (case cell_index of
        Some i \<Rightarrow>
          (case new_content of
             Some c \<Rightarrow> [\<lparr>u_index = i, u_content = c\<rparr>]
           | None \<Rightarrow> [])
      | None \<Rightarrow> (case updates of Some us \<Rightarrow> us | None \<Rightarrow> []))"

definition success_result :: "pystr \<Rightarrow> int list \<Rightarrow> nat \<Rightarrow> pydict" where
  "success_result notebook_path updated_indices total_cells =
     [(K ''path'', VStr notebook_path),
      (K ''status'', K ''success''),
      (K ''updated_cells'', VList (map VInt updated_indices)),
      (K ''total_cells'', VInt (int total_cells)),
      (K ''message'',
         VStr (lit ''Updated cell(s) '' @ str_int_list updated_indices @ lit '' in '' @
               notebook_path))]"

text \<open>
  \<^verbatim>\<open>update_notebook_cell\<close>: the value returned or the exception raised, and the workspace
  after the call. An absent argument (\<^verbatim>\<open>args.get\<close> giving \<^verbatim>\<open>None\<close>) is \<open>None\<close>. The new
  content is encoded as UTF-8 before \<^verbatim>\<open>import_\<close> is called, and the call raises when that fails.
\<close>

definition update_notebook_cell ::
  "workspace \<Rightarrow> pystr \<Rightarrow> int option \<Rightarrow> pystr option \<Rightarrow> cell_update list option \<Rightarrow>
   (py_error + pydict) \<times> workspace" where
  "update_notebook_cell ws notebook_path cell_index new_content updates =
     (let has_single = (cell_index \<noteq> None); has_batch = (updates \<noteq> None)
      in if has_single \<and> has_batch then
           (Inr (error_result
              (lit ''Provide either cell_index+new_content OR updates, not both'')), ws)
         else if \<not> has_single \<and> \<not> has_batch then
           (Inr (error_result
              (lit ''Must provide either cell_index+new_content or updates array'')), ws)
         else if has_single \<and> new_content = None then
           (Inr (error_result (lit ''new_content is required when using cell_index'')), ws)
         else
           (case workspace_export ws notebook_path of
              Inl e \<Rightarrow> (Inl e, ws)
            | Inr source \<Rightarrow>
                let cells = parse_notebook_cells source;
                    to_apply = updates_to_apply cell_index new_content updates
                in (case validate_updates cells to_apply of
                      Some err \<Rightarrow> (Inr err, ws)
                    | None \<Rightarrow>
                        (case apply_updates cells to_apply [] of
                           Inl e \<Rightarrow> (Inl e, ws)
                         | Inr (cells', updated_indices) \<Rightarrow>
                             let new_notebook_content = reconstruct_notebook cells'
                             in if \<not> utf8_encodable new_notebook_content
                                then (Inl UnicodeEncodeError, ws)
                                else (Inr (success_result notebook_path updated_indices
                                             (length cells')),
                                      workspace_import ws notebook_path
                                        new_notebook_content)))))"

text \<open>
  What parsing makes of the segments of a reconstructed notebook: the separator is written with
  an empty line on each side, and these lines end up in the neighbouring cells. \<open>spaced_after\<close>
  is the same for the segments that follow a separator.
\<close>

fun spaced_after :: "pystr list \<Rightarrow> pystr list" where
  "spaced_after [] = []"
| "spaced_after [t] = [NL # t]"
| "spaced_after (t # u # us) = (NL # t @ [NL]) # spaced_after (u # us)"

fun respaced :: "pystr list \<Rightarrow> pystr list" where
  "respaced [] = []"
| "respaced [s] = [s]"
| "respaced (s # t # ts) = (s @ [NL]) # spaced_after (t # ts)"

section \<open>Databricks server: waiting for a run\<close>

text \<open>
  The life-cycle states of a run, an enumeration of the Databricks SDK; the \<^verbatim>\<open>value\<close> of a
  member is its name.
\<close>

datatype RunLifeCycleState =
    BLOCKED | INTERNAL_ERROR | PENDING | QUEUED | RUNNING | SKIPPED | TERMINATED | TERMINATING
  | WAITING_FOR_RETRY

fun life_cycle_value :: "RunLifeCycleState \<Rightarrow> pystr" where
  "life_cycle_value BLOCKED = lit ''BLOCKED''"
| "life_cycle_value INTERNAL_ERROR = lit ''INTERNAL_ERROR''"
| "life_cycle_value PENDING = lit ''PENDING''"
| "life_cycle_value QUEUED = lit ''QUEUED''"
| "life_cycle_value RUNNING = lit ''RUNNING''"
| "life_cycle_value SKIPPED = lit ''SKIPPED''"
| "life_cycle_value TERMINATED = lit ''TERMINATED''"
| "life_cycle_value TERMINATING = lit ''TERMINATING''"
| "life_cycle_value WAITING_FOR_RETRY = lit ''WAITING_FOR_RETRY''"

text \<open>
  What \<^verbatim>\<open>client.jobs.get_run\<close> and \<^verbatim>\<open>client.jobs.get_run_output\<close> return. An attribute that
  the SDK leaves unset is \<open>None\<close>; \<open>result_state\<close> holds the value of the enumeration member.
\<close>

record run_state =
  life_cycle_state :: "RunLifeCycleState option"
  result_state :: "pystr option"
  state_message :: pyval

record run =
  state_of_run :: "run_state option"

record notebook_output =
  nb_result :: "pystr option"
  nb_truncated :: pyval

record run_output =
  output_notebook :: "notebook_output option"
  output_error :: "pystr option"
  output_error_trace :: "pystr option"
  output_logs :: "pystr option"

text \<open>
  The jobs client: \<open>get_run k\<close> is the answer to the call of \<^verbatim>\<open>get_run\<close> that comes after \<open>k\<close>
  earlier ones, so the state of the run can change from poll to poll; either call can raise.
\<close>

record jobs_client =
  get_run :: "nat \<Rightarrow> py_error + run"
  get_run_output_call :: "py_error + run_output"

definition opt_str :: "pystr option \<Rightarrow> pyval" where
  "opt_str s = (case s of None \<Rightarrow> VNone | Some v \<Rightarrow> VStr v)"

text \<open>The first entries of the result of \<^verbatim>\<open>get_run_output\<close>, read from the run.\<close>

definition run_fields :: "int \<Rightarrow> run \<Rightarrow> py_error + pydict" where
  "run_fields run_id r =
     (case state_of_run r of
        None \<Rightarrow>
          Inr [(K ''run_id'', VInt run_id), (K ''state'', K ''UNKNOWN''),
               (K ''result_state'', VNone), (K ''state_message'', VNone)]
      | Some st \<Rightarrow>
          (case life_cycle_state st of
             None \<Rightarrow> Inl AttributeError
           | Some lc \<Rightarrow>
               Inr [(K ''run_id'', VInt run_id), (K ''state'', VStr (life_cycle_value lc)),
                    (K ''result_state'', opt_str (result_state st)),
                    (K ''state_message'', state_message st)]))"

definition add_notebook_output :: "run_output \<Rightarrow> pydict \<Rightarrow> pydict" where
  "add_notebook_output output result =
     (case output_notebook output of
        None \<Rightarrow> result
      | Some nb \<Rightarrow>
          (case nb_result nb of
             None \<Rightarrow>
               dict_set result (K ''notebook_output'')
                 (VDict [(K ''result'', VNone), (K ''truncated'', nb_truncated nb)])
           | Some res \<Rightarrow>
               if res = [] then
                 dict_set result (K ''notebook_output'')
                   (VDict [(K ''result'', VStr res), (K ''truncated'', nb_truncated nb)])
               else
                 (case truncate_text res MAX_TEXT_SIZE (lit ''notebook_result'') of
                    (res', nb_meta) \<Rightarrow>
                      dict_set (dict_update result nb_meta) (K ''notebook_output'')
                        (VDict [(K ''result'', VStr res'), (K ''truncated'', nb_truncated nb)]))))"

definition add_error :: "run_output \<Rightarrow> pydict \<Rightarrow> pydict" where
  "add_error output result =
     (case output_error output of
        None \<Rightarrow> result
      | Some e \<Rightarrow> if e = [] then result else dict_set result (K ''error'') (VStr e))"

definition add_error_trace :: "run_output \<Rightarrow> pydict \<Rightarrow> pydict" where
  "add_error_trace output result =
     (case output_error_trace output of
        None \<Rightarrow> result
      | Some t \<Rightarrow>
          if t = [] then result
          else
            (case truncate_text t MAX_TEXT_SIZE (lit ''error_trace'') of
               (error_trace, trace_meta) \<Rightarrow>
                 dict_update (dict_set result (K ''error_trace'') (VStr error_trace)) trace_meta))"

definition add_logs :: "run_output \<Rightarrow> pydict \<Rightarrow> pydict" where
  "add_logs output result =
     (case output_logs output of
        None \<Rightarrow> result
      | Some l \<Rightarrow>
          if l = [] then result
          else
            (case truncate_text l MAX_LOG_SIZE (lit ''logs'') of
               (logs, logs_meta) \<Rightarrow>
                 dict_update (dict_set result (K ''logs'') (VStr logs)) logs_meta))"

text \<open>\<^verbatim>\<open>get_run_output\<close>, called when \<open>calls\<close> calls of \<^verbatim>\<open>get_run\<close> have been made.\<close>

definition get_run_output :: "jobs_client \<Rightarrow> nat \<Rightarrow> int \<Rightarrow> py_error + pydict" where
  "get_run_output client calls run_id =
     (case get_run client calls of
        Inl e \<Rightarrow> Inl e
      | Inr r \<Rightarrow>
          (case get_run_output_call client of
             Inl e \<Rightarrow> Inl e
           | Inr output \<Rightarrow>
               (case run_fields run_id r of
                  Inl e \<Rightarrow> Inl e
                | Inr result \<Rightarrow>
                    Inr (add_logs output
                          (add_error_trace output
                            (add_error output (add_notebook_output output result)))))))"

definition is_terminal :: "run \<Rightarrow> bool" where
  "is_terminal r =
     (case state_of_run r of
        None \<Rightarrow> False
      | Some st \<Rightarrow>
          life_cycle_state st = Some TERMINATED \<or> life_cycle_state st = Some SKIPPED \<or>
          life_cycle_state st = Some INTERNAL_ERROR)"

definition timeout_result :: "int \<Rightarrow> int \<Rightarrow> pydict" where
  "timeout_result run_id timeout_minutes =
     [(K ''run_id'', VInt run_id),
      (K ''status'', K ''TIMEOUT''),
      (K ''message'',
         VStr (lit ''Run did not complete within '' @ str_int timeout_minutes @ lit '' minutes''))]"

text \<open>
  The polling loop of \<^verbatim>\<open>wait_for_run\<close>. \<open>polls\<close> counts the calls of \<^verbatim>\<open>get_run\<close> made by the
  loop and is returned with the result; the sleep between two polls changes no value.
\<close>

function wait_loop ::
  "jobs_client \<Rightarrow> int \<Rightarrow> int \<Rightarrow> int \<Rightarrow> int \<Rightarrow> nat \<Rightarrow> (py_error + pydict) \<times> nat" where
  "wait_loop client run_id timeout_minutes max_iterations iteration polls =
     (if iteration < max_iterations then
        (case get_run client polls of
           Inl e \<Rightarrow> (Inl e, Suc polls)
         | Inr r \<Rightarrow>
             if is_terminal r then (get_run_output client (Suc polls) run_id, Suc polls)
             else wait_loop client run_id timeout_minutes max_iterations (iteration + 1)
                    (Suc polls))
      else (Inr (timeout_result run_id timeout_minutes), polls))"
  by pat_completeness auto
termination
  by (relation "measure (\<lambda>(client, run_id, timeout_minutes, max_iterations, iteration, polls).
        nat (max_iterations - iteration))") auto

declare wait_loop.simps [simp del]

definition wait_for_run ::
  "jobs_client \<Rightarrow> int \<Rightarrow> int option \<Rightarrow> int option \<Rightarrow> (py_error + pydict) \<times> nat" where
  "wait_for_run client run_id timeout_arg poll_arg =
     (let timeout_minutes = (case timeout_arg of Some t \<Rightarrow> t | None \<Rightarrow> 30);
          poll_interval = (case poll_arg of Some p \<Rightarrow> p | None \<Rightarrow> 10)
      in if poll_interval = 0 then (Inl ZeroDivisionError, 0)
         else wait_loop client run_id timeout_minutes
                ((timeout_minutes * 60) div poll_interval) 0 0)"

section \<open>Databricks server: listing and reading notebooks\<close>

text \<open>
  An object as \<^verbatim>\<open>client.workspace.list\<close> yields it: \<open>object_type\<close> and \<open>language\<close> are the
  values of the enumerations, or \<open>None\<close> when the object has none.
\<close>

record ws_object =
  object_path :: pyval
  object_type :: "pystr option"
  language :: "pystr option"

definition notebook_entry :: "ws_object \<Rightarrow> pyval" where
  "notebook_entry item =
     VDict [(K ''path'', object_path item),
            (K ''type'', (case object_type item of Some v \<Rightarrow> VStr v | None \<Rightarrow> K ''UNKNOWN'')),
            (K ''language'', (case language item of Some v \<Rightarrow> VStr v | None \<Rightarrow> VNone))]"

text \<open>\<^verbatim>\<open>list_notebooks\<close> on the objects that the client lists for the path.\<close>

definition list_notebooks ::
  "pystr \<Rightarrow> int option \<Rightarrow> int option \<Rightarrow> ws_object list \<Rightarrow> pydict" where
  "list_notebooks path limit_arg offset_arg listed =
     (let limit = (case limit_arg of Some l \<Rightarrow> l | None \<Rightarrow> MAX_LIST_ITEMS);
          offset = (case offset_arg of Some off \<Rightarrow> off | None \<Rightarrow> 0);
          all_items = map notebook_entry listed;
          total_count = int (length all_items);
          paginated_items = py_slice all_items (Some offset) (Some (offset + limit));
          result = [(K ''path'', VStr path),
                    (K ''items'', VList paginated_items),
                    (K ''total_count'', VInt total_count),
                    (K ''returned_count'', VInt (int (length paginated_items))),
                    (K ''offset'', VInt offset)]
      in if offset + int (length paginated_items) < total_count
         then dict_set (dict_set result (K ''has_more'') (VBool True))
                (K ''next_offset'') (VInt (offset + int (length paginated_items)))
         else result)"

text \<open>
  The loop of \<^verbatim>\<open>read_notebook\<close> over \<^verbatim>\<open>enumerate(cells_to_return)\<close>, with \<open>cells_output\<close> and
  \<open>truncation_info\<close>.
\<close>

fun read_cells ::
  "int \<Rightarrow> nat \<Rightarrow> pystr list \<Rightarrow> pystr list \<Rightarrow> pydict \<Rightarrow> pystr list \<times> pydict" where
  "read_cells cell_offset i [] cells_output truncation_info = (cells_output, truncation_info)"
| "read_cells cell_offset i (cell # rest) cells_output truncation_info =
     (let actual_index = cell_offset + int i
      in if int (length cell) > MAX_CELL_CONTENT then
           (case truncate_text cell MAX_CELL_CONTENT (lit ''cell'') of
              (truncated_cell, _) \<Rightarrow>
                read_cells cell_offset (Suc i) rest (cells_output @ [truncated_cell])
                  (dict_set truncation_info (VInt actual_index)
                     (VDict [(K ''truncated'', VBool True),
                             (K ''total_size'', VInt (int (length cell))),
                             (K ''shown_size'', VInt MAX_CELL_CONTENT)])))
         else read_cells cell_offset (Suc i) rest (cells_output @ [cell]) truncation_info)"

definition read_notebook ::
  "workspace \<Rightarrow> pystr \<Rightarrow> int option \<Rightarrow> int option \<Rightarrow> py_error + pydict" where
  "read_notebook ws notebook_path cell_offset_arg cell_limit =
     (let cell_offset = (case cell_offset_arg of Some off \<Rightarrow> off | None \<Rightarrow> 0)
      in case workspace_export ws notebook_path of
           Inl e \<Rightarrow> Inl e
         | Inr source \<Rightarrow>
             let all_cells = parse_notebook_cells source;
                 total_cells = int (length all_cells);
                 cells_to_return =
                   (case cell_limit of
                      Some l \<Rightarrow> py_slice all_cells (Some cell_offset) (Some (cell_offset + l))
                    | None \<Rightarrow> py_slice all_cells (Some cell_offset) None)
             in case read_cells cell_offset 0 cells_to_return [] [] of
                  (cells_output, truncation_info) \<Rightarrow>
                    let result = [(K ''path'', VStr notebook_path),
                                  (K ''total_cells'', VInt total_cells),
                                  (K ''cells_returned'', VInt (int (length cells_output))),
                                  (K ''cell_offset'', VInt cell_offset),
                                  (K ''cells'', VList (map VStr cells_output))];
                        result' =
                          (if truncation_info \<noteq> [] then
                             dict_set (dict_set result (K ''truncated_cells'') (VDict truncation_info))
                               (K ''truncation_note'')
                               (K ''Some cells were truncated. Use cell_offset/cell_limit to read specific cells.'')
                           else result)
                    in if cell_offset + int (length cells_output) < total_cells
                       then Inr (dict_set (dict_set result' (K ''has_more'') (VBool True))
                              (K ''next_offset'') (VInt (cell_offset + int (length cells_output))))
                       else Inr result')"

section \<open>Databricks server: clusters\<close>

text \<open>
  A cluster as the client lists it. \<open>cluster_state\<close> is \<^verbatim>\<open>cluster.state.value\<close>, or \<open>None\<close> when
  the cluster has no state; the other fields are copied into the result as they are.
\<close>

record cluster =
  cluster_id :: pyval
  cluster_name :: pyval
  cluster_state :: "pystr option"
  spark_version :: pyval
  node_type_id :: pyval
  num_workers :: pyval
  creator_user_name :: pyval

definition state_of :: "cluster \<Rightarrow> pystr" where
  "state_of c = (case cluster_state c of Some v \<Rightarrow> v | None \<Rightarrow> lit ''UNKNOWN'')"

definition cluster_entry :: "cluster \<Rightarrow> pyval" where
  "cluster_entry c =
     VDict [(K ''cluster_id'', cluster_id c),
            (K ''cluster_name'', cluster_name c),
            (K ''state'', VStr (state_of c)),
            (K ''spark_version'', spark_version c),
            (K ''node_type_id'', node_type_id c),
            (K ''num_workers'', num_workers c),
            (K ''creator'', creator_user_name c)]"

text \<open>The loop of \<^verbatim>\<open>list_clusters\<close> over the clusters, with \<open>clusters\<close> and \<open>total_matched\<close>.\<close>

fun collect_clusters ::
  "pystr \<Rightarrow> int \<Rightarrow> cluster list \<Rightarrow> pyval list \<Rightarrow> int \<Rightarrow> pyval list \<times> int" where
  "collect_clusters filter_by limit [] clusters total_matched = (clusters, total_matched)"
| "collect_clusters filter_by limit (c # rest) clusters total_matched =
     (let state = state_of c
      in if filter_by = lit ''running'' \<and> state \<noteq> lit ''RUNNING'' then
           collect_clusters filter_by limit rest clusters total_matched
         else if filter_by = lit ''terminated'' \<and> state \<noteq> lit ''TERMINATED'' then
           collect_clusters filter_by limit rest clusters total_matched
         else
           collect_clusters filter_by limit rest
             (if int (length clusters) < limit then clusters @ [cluster_entry c] else clusters)
             (total_matched + 1))"

definition clusters_message :: "int \<Rightarrow> int \<Rightarrow> pystr" where
  "clusters_message limit total_matched =
     lit ''Showing '' @ str_int limit @ lit '' of '' @ str_int total_matched @
     lit '' clusters. Use filter_by or increase limit (max 100) to see more.''"

text \<open>
  \<^verbatim>\<open>list_clusters\<close> on the clusters that the client lists; \<open>None\<close> is an absent argument.
\<close>

definition list_clusters :: "pystr option \<Rightarrow> int option \<Rightarrow> cluster list \<Rightarrow> pydict" where
  "list_clusters filter_by_arg limit_arg listed =
     (let filter_by = (case filter_by_arg of Some f \<Rightarrow> f | None \<Rightarrow> lit ''all'');
          limit = min (case limit_arg of Some l \<Rightarrow> l | None \<Rightarrow> 25) 100
      in case collect_clusters filter_by limit listed [] 0 of
           (clusters, total_matched) \<Rightarrow>
             let result = [(K ''clusters'', VList clusters),
                           (K ''returned'', VInt (int (length clusters))),
                           (K ''total_matched'', VInt total_matched)]
             in if total_matched > limit
                then dict_set (dict_set result (K ''truncated'') (VBool True))
                       (K ''message'') (VStr (clusters_message limit total_matched))
                else result)"

section \<open>Notion server: page content\<close>

text \<open>
  What the Notion API answers to \<^verbatim>\<open>GET /blocks/{id}/children\<close>. A request is the block id, the
  \<^verbatim>\<open>page_size\<close> parameter and the \<^verbatim>\<open>start_cursor\<close> parameter (\<open>None\<close> when the request has none).
  \<^verbatim>\<open>raise_for_status\<close> raises \<^verbatim>\<open>HTTPStatusError\<close>, with the status code and the body of the
  response; a request can also raise another exception, with the name of its type and its text.
\<close>

datatype fetch_error =
    HTTPStatusError int pystr
  | OtherError pystr pystr

record raw_block =
  rb_id :: pystr
  rb_has_children :: bool
  rb_json :: pyval

record children_response =
  resp_results :: "raw_block list"
  resp_has_more :: bool
  resp_next_cursor :: pyval

type_synonym request = "pystr \<times> int \<times> pyval option"

type_synonym notion_api = "request \<Rightarrow> fetch_error + children_response"

text \<open>
  A computation that sends requests: the requests sent, in order, and the value returned or
  the exception raised; \<open>None\<close> when it did not end within the bound on its depth. \<open>then_fetch\<close>
  runs a second computation after a first one that returned.
\<close>

type_synonym 'a fetching = "(request list \<times> (fetch_error + 'a)) option"

definition then_fetch :: "'a fetching \<Rightarrow> ('a \<Rightarrow> 'b fetching) \<Rightarrow> 'b fetching" where
  "then_fetch m f =
     (case m of
        None \<Rightarrow> None
      | Some (sent, Inl e) \<Rightarrow> Some (sent, Inl e)
      | Some (sent, Inr x) \<Rightarrow>
          (case f x of
             None \<Rightarrow> None
           | Some (sent', r) \<Rightarrow> Some (sent @ sent', r)))"

definition send :: "notion_api \<Rightarrow> request \<Rightarrow> children_response fetching" where
  "send api req = Some ([req], api req)"

definition returning :: "'a \<Rightarrow> 'a fetching" where
  "returning x = Some ([], Inr x)"

text \<open>
  \<^verbatim>\<open>fetch_blocks\<close>, the function nested in \<^verbatim>\<open>get_page_content\<close>: one request, the loop over the blocks
  of the response (\<open>fetch_results\<close>), which calls \<open>fetch_blocks\<close> for a block that has children,
  and the next turn of the \<^verbatim>\<open>while True\<close> loop with the cursor of the response. The formatting
  of a single block, \<open>format_block\<close>, sends nothing and is a parameter. Every call in the
  source passes no cursor, so the first request of a call has no \<^verbatim>\<open>start_cursor\<close>; the argument
  \<open>start_cursor\<close> here is the parameter of the request, set by the loop from the second turn
  on. The upstream decides how many pages and levels there are, so the first argument bounds
  the depth of calls.
\<close>

fun fetch_blocks ::
  "nat \<Rightarrow> notion_api \<Rightarrow> (raw_block \<Rightarrow> pydict) \<Rightarrow> bool \<Rightarrow> int \<Rightarrow> pystr \<Rightarrow> pyval option \<Rightarrow>
   pyval list fetching"
and fetch_results ::
  "nat \<Rightarrow> notion_api \<Rightarrow> (raw_block \<Rightarrow> pydict) \<Rightarrow> bool \<Rightarrow> int \<Rightarrow> raw_block list \<Rightarrow>
   pyval list fetching"
where
  "fetch_blocks 0 api format_block fetch_all page_size block_id start_cursor = None"
| "fetch_blocks (Suc n) api format_block fetch_all page_size block_id start_cursor =
     then_fetch (send api (block_id, page_size, start_cursor)) (\<lambda>data.
     then_fetch (fetch_results n api format_block fetch_all page_size (resp_results data))
       (\<lambda>blocks.
          if \<not> fetch_all \<or> \<not> resp_has_more data then returning blocks
          else
            then_fetch
              (fetch_blocks n api format_block fetch_all page_size block_id
                 (Some (resp_next_cursor data)))
              (\<lambda>more. returning (blocks @ more))))"
| "fetch_results n api format_block fetch_all page_size [] = returning []"
| "fetch_results n api format_block fetch_all page_size (block # rest) =
     then_fetch
       (if fetch_all \<and> rb_has_children block then
          then_fetch (fetch_blocks n api format_block fetch_all page_size (rb_id block) None)
            (\<lambda>children.
               returning (dict_set (format_block block) (K ''children'') (VList children)))
        else returning (format_block block))
       (\<lambda>formatted.
          then_fetch (fetch_results n api format_block fetch_all page_size rest)
            (\<lambda>blocks. returning (VDict formatted # blocks)))"

text \<open>
  \<^verbatim>\<open>get_page_content\<close>. \<open>start_cursor\<close> is the argument of that name, \<open>None\<close> when the arguments
  have none; \<open>fetch_all\<close> and \<open>page_size\<close> have the defaults \<open>True\<close> and 100.
\<close>

definition get_page_content ::
  "nat \<Rightarrow> notion_api \<Rightarrow> (raw_block \<Rightarrow> pydict) \<Rightarrow> pystr \<Rightarrow> bool option \<Rightarrow> int option \<Rightarrow>
   pyval option \<Rightarrow> pydict fetching" where
  "get_page_content n api format_block page_id_arg fetch_all_arg page_size_arg start_cursor =
     (let page_id = filter (\<lambda>c. c \<noteq> 45) page_id_arg;
          fetch_all = (case fetch_all_arg of Some b \<Rightarrow> b | None \<Rightarrow> True);
          page_size = min (case page_size_arg of Some s \<Rightarrow> s | None \<Rightarrow> 100) 100
      in if fetch_all then
           then_fetch (fetch_blocks n api format_block fetch_all page_size page_id None)
             (\<lambda>blocks. returning [(K ''blocks'', VList blocks)])
         else
           then_fetch (send api (page_id, page_size, start_cursor))
             (\<lambda>data. returning
                [(K ''blocks'', VList (map (\<lambda>block. VDict (format_block block)) (resp_results data))),
                 (K ''has_more'', VBool (resp_has_more data)),
                 (K ''next_cursor'', resp_next_cursor data)]))"

text \<open>The truncation of the Notion server, which returns the text only.\<close>

definition notion_truncate_text :: "pystr \<Rightarrow> int \<Rightarrow> pystr" where
  "notion_truncate_text text max_size =
     (if text = [] \<or> int (length text) \<le> max_size then text
      else py_slice text None (Some max_size) @ [NL, NL] @ lit ''[... truncated, showing '' @
           format_comma max_size @ lit '' of '' @ format_comma (int (length text)) @
           lit '' chars]'')"

text \<open>
  \<^verbatim>\<open>call_tool\<close> for the tool \<^verbatim>\<open>notion_get_page_content\<close>: the text of the answer. \<open>dumps\<close> is
  \<^verbatim>\<open>json.dumps\<close> with the options of the source.
\<close>

definition call_tool_get_page_content ::
  "(pyval \<Rightarrow> pystr) \<Rightarrow> nat \<Rightarrow> notion_api \<Rightarrow> (raw_block \<Rightarrow> pydict) \<Rightarrow> pystr \<Rightarrow> bool option \<Rightarrow>
   int option \<Rightarrow> pyval option \<Rightarrow> pystr option" where
  "call_tool_get_page_content dumps n api format_block page_id fetch_all page_size start_cursor =
     (case get_page_content n api format_block page_id fetch_all page_size start_cursor of
        None \<Rightarrow> None
      | Some (sent, Inr result) \<Rightarrow> Some (notion_truncate_text (dumps (VDict result)) MAX_TEXT_SIZE)
      | Some (sent, Inl (HTTPStatusError status_code error_body)) \<Rightarrow>
          Some (lit ''Notion API Error '' @ str_int status_code @ lit '': '' @ error_body)
      | Some (sent, Inl (OtherError type_name msg)) \<Rightarrow>
          Some (lit ''Error: '' @ type_name @ lit '': '' @ msg))"

section \<open>Notions used in the statements\<close>

text \<open>
  An update passes both checks of the validation loop: its index is within the cells and its
  content is accepted by \<open>validate_cell_content\<close>. \<open>update_error\<close> is the result the loop
  returns for an update that does not.
\<close>

definition update_ok :: "pystr list \<Rightarrow> cell_update \<Rightarrow> bool" where
  "update_ok cells u \<longleftrightarrow>
     0 \<le> u_index u \<and> u_index u < int (length cells) \<and> fst (validate_cell_content (u_content u))"

definition update_error :: "pystr list \<Rightarrow> cell_update \<Rightarrow> pydict" where
  "update_error cells u =
     (if u_index u < 0 \<or> int (length cells) \<le> u_index u
      then error_result (out_of_bounds_message (u_index u) (length cells))
      else error_result
             (invalid_content_message (u_index u) (snd (validate_cell_content (u_content u)))))"

text \<open>The cells after the updates have been written one after the other, in list order.\<close>

definition cells_after :: "pystr list \<Rightarrow> cell_update list \<Rightarrow> pystr list" where
  "cells_after cells us = foldl (\<lambda>cs u. cs[nat (u_index u) := u_content u]) cells us"

text \<open>The notebook of the scenarios, and a workspace that holds it at one path.\<close>

definition scenario_source :: pystr where
  "scenario_source =
     lit ''a\<newline># COMMAND ----------\<newline>b\<newline># COMMAND ----------\<newline>c''"

definition scenario_workspace :: workspace where
  "scenario_workspace =
     \<lparr>notebooks = Map.empty(lit ''/nb'' \<mapsto> scenario_source), import_calls = []\<rparr>"

text \<open>The clusters that pass the filter of \<^verbatim>\<open>list_clusters\<close>.\<close>

definition cluster_matches :: "pystr \<Rightarrow> cluster \<Rightarrow> bool" where
  "cluster_matches filter_by c \<longleftrightarrow>
     \<not> (filter_by = lit ''running'' \<and> state_of c \<noteq> lit ''RUNNING'') \<and>
     \<not> (filter_by = lit ''terminated'' \<and> state_of c \<noteq> lit ''TERMINATED'')"

definition example_cluster :: cluster where
  "example_cluster =
     \<lparr>cluster_id = K ''c-1'', cluster_name = K ''etl'', cluster_state = Some (lit ''RUNNING''),
      spark_version = K ''15.4'', node_type_id = K ''m5'', num_workers = VInt 2,
      creator_user_name = K ''ann''\<rparr>"

text \<open>A cell as \<^verbatim>\<open>read_notebook\<close> returns it: truncated when longer than \<open>MAX_CELL_CONTENT\<close>.\<close>

definition shown_cell :: "pystr \<Rightarrow> pystr" where
  "shown_cell cell =
     (if int (length cell) > MAX_CELL_CONTENT
      then fst (truncate_text cell MAX_CELL_CONTENT (lit ''cell'')) else cell)"

text \<open>
  A caller that pages through a listing: it calls with an offset, keeps the list under \<open>key\<close>,
  and calls again with the \<open>next_offset\<close> of the result for as long as the result has one. The
  first argument bounds the number of calls; \<open>None\<close> means that the bound was reached with a
  \<open>next_offset\<close> still to follow, or that a call gave no listing.
\<close>

fun as_list :: "pyval option \<Rightarrow> pyval list option" where
  "as_list (Some (VList xs)) = Some xs"
| "as_list _ = None"

fun as_int :: "pyval option \<Rightarrow> int option" where
  "as_int (Some (VInt i)) = Some i"
| "as_int _ = None"

fun follow_next_offset ::
  "nat \<Rightarrow> (int \<Rightarrow> pydict option) \<Rightarrow> pyval \<Rightarrow> int \<Rightarrow> pyval list option" where
  "follow_next_offset 0 call key offset = None"
| "follow_next_offset (Suc calls) call key offset =
     (case call offset of
        None \<Rightarrow> None
      | Some r \<Rightarrow>
          (case as_list (dict_get r key) of
             None \<Rightarrow> None
           | Some items \<Rightarrow>
               (case as_int (dict_get r (K ''next_offset'')) of
                  None \<Rightarrow> Some items
                | Some next_offset \<Rightarrow>
                    map_option ((@) items) (follow_next_offset calls call key next_offset))))"

definition result_of :: "py_error + pydict \<Rightarrow> pydict option" where
  "result_of r = (case r of Inl e \<Rightarrow> None | Inr d \<Rightarrow> Some d)"

text \<open>The two listings as functions of the offset, for a fixed limit.\<close>

definition list_notebooks_from ::
  "pystr \<Rightarrow> int \<Rightarrow> ws_object list \<Rightarrow> int \<Rightarrow> pydict option" where
  "list_notebooks_from path limit listed offset =
     Some (list_notebooks path (Some limit) (Some offset) listed)"

definition read_notebook_from ::
  "workspace \<Rightarrow> pystr \<Rightarrow> int option \<Rightarrow> int \<Rightarrow> pydict option" where
  "read_notebook_from ws notebook_path cell_limit cell_offset =
     result_of (read_notebook ws notebook_path (Some cell_offset) cell_limit)"

definition example_object :: ws_object where
  "example_object =
     \<lparr>object_path = K ''/d/nb'', object_type = Some (lit ''NOTEBOOK''),
      language = Some (lit ''PYTHON'')\<rparr>"

text \<open>
  The upstream run never reports a terminal life-cycle state: every call of \<^verbatim>\<open>get_run\<close>
  answers, with a run that is not in a terminal state.
\<close>

definition never_terminal :: "jobs_client \<Rightarrow> bool" where
  "never_terminal client \<longleftrightarrow> (\<forall>k. \<exists>r. get_run client k = Inr r \<and> \<not> is_terminal r)"

definition running_client :: jobs_client where
  "running_client =
     \<lparr>get_run = (\<lambda>k. Inr \<lparr>state_of_run =
         Some \<lparr>life_cycle_state = Some RUNNING, result_state = None, state_message = VNone\<rparr>\<rparr>),
      get_run_output_call = Inl (UpstreamError [])\<rparr>"

text \<open>The keys of a dictionary, in order.\<close>

definition dict_keys :: "pydict \<Rightarrow> pyval list" where
  "dict_keys d = map fst d"

text \<open>
  A run of requests and its outcome agree with the upstream: when a value was returned, every
  request sent was answered; when an exception was raised, it is the failure of the last
  request sent, and every request before that one was answered.
\<close>

definition traced :: "notion_api \<Rightarrow> request list \<Rightarrow> fetch_error + 'a \<Rightarrow> bool" where
  "traced api sent r \<longleftrightarrow>
     (case r of
        Inr x \<Rightarrow> (\<forall>q\<in>set sent. \<not> isl (api q))
      | Inl e \<Rightarrow> sent \<noteq> [] \<and> api (last sent) = Inl e \<and> (\<forall>q\<in>set (butlast sent). \<not> isl (api q)))"

definition all_traced :: "notion_api \<Rightarrow> 'a fetching \<Rightarrow> bool" where
  "all_traced api m \<longleftrightarrow> (\<forall>sent r. m = Some (sent, r) \<longrightarrow> traced api sent r)"

text \<open>
  A computation \<open>m'\<close> is the computation \<open>m\<close> run against an upstream in which the request \<open>q\<close>
  fails with \<open>e\<close>: whenever \<open>m\<close> ends, \<open>m'\<close> ends too; if \<open>m\<close> sent \<open>q\<close>, then \<open>m'\<close> sent the
  requests of \<open>m\<close> up to the first \<open>q\<close> and raised \<open>e\<close>; if \<open>m\<close> did not send \<open>q\<close>, then \<open>m'\<close> sent the
  same requests, with the same outcome.
\<close>

definition failing_at :: "request \<Rightarrow> fetch_error \<Rightarrow> 'a fetching \<Rightarrow> 'a fetching \<Rightarrow> bool" where
  "failing_at q e m m' \<longleftrightarrow>
     (\<forall>sent r. m = Some (sent, r) \<longrightarrow>
        m' = Some (if q \<in> set sent then (takeWhile (\<lambda>x. x \<noteq> q) sent @ [q], Inl e)
                   else (sent, r)))"

text \<open>
  The page of the scenario: the root has a plain block and a block \<open>mid\<close> with children; the
  children of \<open>mid\<close> cannot be fetched (status 502).
\<close>

definition scenario_api :: notion_api where
  "scenario_api req =
     (if fst req = lit ''root'' then
        Inr \<lparr>resp_results =
               [\<lparr>rb_id = lit ''first'', rb_has_children = False, rb_json = VNone\<rparr>,
                \<lparr>rb_id = lit ''mid'', rb_has_children = True, rb_json = VNone\<rparr>],
             resp_has_more = False, resp_next_cursor = VNone\<rparr>
      else Inl (HTTPStatusError 502 (lit ''bad gateway'')))"

text \<open>The same page with an upstream that answers every request: \<open>mid\<close> has no children.\<close>

definition scenario_api_ok :: notion_api where
  "scenario_api_ok req =
     (if fst req = lit ''root'' then
        Inr \<lparr>resp_results =
               [\<lparr>rb_id = lit ''first'', rb_has_children = False, rb_json = VNone\<rparr>,
                \<lparr>rb_id = lit ''mid'', rb_has_children = True, rb_json = VNone\<rparr>],
             resp_has_more = False, resp_next_cursor = VNone\<rparr>
      else Inr \<lparr>resp_results = [], resp_has_more = False, resp_next_cursor = VNone\<rparr>)"

definition scenario_format :: "raw_block \<Rightarrow> pydict" where
  "scenario_format block = [(K ''id'', VStr (rb_id block))]"

definition scenario_dumps :: "pyval \<Rightarrow> pystr" where
  "scenario_dumps v = lit ''{}''"

section \<open>Properties\<close>

subsection \<open>Truncation\<close>

lemma truncate_keys_distinct:
  "field_name @ lit ''_truncated'' \<noteq> field_name @ lit ''_total_size''"
  "field_name @ lit ''_truncated'' \<noteq> field_name @ lit ''_shown_size''"
  "field_name @ lit ''_total_size'' \<noteq> field_name @ lit ''_shown_size''"
  by (simp_all add: lit_def)

lemma truncate_text_short:
  "int (length text) \<le> b \<Longrightarrow> truncate_text text b name = (text, [])"
  by (simp add: truncate_text_def)

lemma truncate_text_long:
  assumes "0 < b" and "b < int (length text)"
  shows "truncate_text text b name =
           (take (nat b) text @ truncate_suffix b (length text),
            [(VStr (name @ lit ''_truncated''), VBool True),
             (VStr (name @ lit ''_total_size''), VInt (int (length text))),
             (VStr (name @ lit ''_shown_size''), VInt b)])"
proof -
  from assms have ne: "text \<noteq> []" by auto
  from assms have sl: "py_slice text None (Some b) = take (nat b) text"
    by (simp add: py_slice_def clamp_index_def)
  have md: "dict_display
              [(VStr (name @ lit ''_truncated''), VBool True),
               (VStr (name @ lit ''_total_size''), VInt (int (length text))),
               (VStr (name @ lit ''_shown_size''), VInt b)] =
            [(VStr (name @ lit ''_truncated''), VBool True),
             (VStr (name @ lit ''_total_size''), VInt (int (length text))),
             (VStr (name @ lit ''_shown_size''), VInt b)]"
    using truncate_keys_distinct [of name]
    by (simp add: dict_display_def dict_update_def)
  from assms ne show ?thesis
    by (simp add: truncate_text_def Let_def sl md)
qed

text \<open>
  C1. For a positive budget \<open>b\<close>, \<open>truncate_text text b name\<close> returns a text of length at most
  \<open>b\<close> plus the length of the suffix it appended (nothing is appended to a text that fits);
  the metadata is non-empty exactly when \<open>len(text) > b\<close>, and then it holds \<open>truncated = True\<close>,
  \<open>total_size = len(text)\<close> and \<open>shown_size = b\<close> under the keys prefixed by \<open>name\<close>; a text
  that fits, the empty text included, comes back unchanged with empty metadata.
\<close>

theorem truncate_text_bound:
  assumes "0 < b"
  shows "int (length (fst (truncate_text text b name))) \<le>
           b + (if b < int (length text) then int (length (truncate_suffix b (length text))) else 0) \<and>
         (snd (truncate_text text b name) \<noteq> [] \<longleftrightarrow> b < int (length text)) \<and>
         (b < int (length text) \<longrightarrow>
           truncate_text text b name =
             (take (nat b) text @ truncate_suffix b (length text),
              [(VStr (name @ lit ''_truncated''), VBool True),
               (VStr (name @ lit ''_total_size''), VInt (int (length text))),
               (VStr (name @ lit ''_shown_size''), VInt b)])) \<and>
         (int (length text) \<le> b \<or> text = [] \<longrightarrow> truncate_text text b name = (text, []))"
proof (cases "b < int (length text)")
  case True
  with assms have "text \<noteq> []" by auto
  with assms True show ?thesis by (simp add: truncate_text_long)
next
  case False
  then show ?thesis by (simp add: truncate_text_short)
qed

theorem truncate_text_bound_witness:
  "(0::int) < 3 \<and>
   truncate_text (lit ''abcdef'') 3 (lit ''content'') =
     (lit ''abc'' @ [NL, NL] @ lit ''[... truncated, showing 3 of 6 chars]'',
      [(K ''content_truncated'', VBool True), (K ''content_total_size'', VInt 6),
       (K ''content_shown_size'', VInt 3)]) \<and>
   truncate_text (lit ''ab'') 3 (lit ''content'') = (lit ''ab'', []) \<and>
   truncate_text [] 3 (lit ''content'') = ([], [])"
  using truncate_text_bound [of 3 "lit ''abcdef''" "lit ''content''"]
    truncate_text_bound [of 3 "lit ''ab''" "lit ''content''"]
    truncate_text_bound [of 3 "[]" "lit ''content''"]
  by (simp add: lit_def truncate_suffix_def format_comma_def digits.simps)

subsection \<open>Lines, pieces and separators\<close>

lemma split_from_nonempty: "split_from c p s \<noteq> []"
  by (induction s arbitrary: p) auto

lemma split_from_append_sep:
  "split_from c p (a @ c # b) = split_from c p a @ split_from c [] b"
  by (induction a arbitrary: p) auto

lemma split_from_no_sep: "c \<notin> set a \<Longrightarrow> split_from c p a = [p @ a]"
  by (induction a arbitrary: p) auto

lemma join_Cons: "ys \<noteq> [] \<Longrightarrow> join sep (x # ys) = x @ sep @ join sep ys"
  by (cases ys) auto

lemma join_snoc: "xs \<noteq> [] \<Longrightarrow> join sep (xs @ [y]) = join sep xs @ sep @ y"
  by (induction sep xs rule: join.induct) auto

lemma join_split_from: "join [c] (split_from c p s) = p @ s"
  by (induction s arbitrary: p) (auto simp: join_Cons split_from_nonempty)

lemma split_from_sublist: "l \<in> set (split_from c p s) \<Longrightarrow> sublist l (p @ s)"
proof (induction s arbitrary: p)
  case Nil
  then show ?case by simp
next
  case (Cons x xs)
  show ?case
  proof (cases "x = c")
    case True
    with Cons.prems have "l = p \<or> l \<in> set (split_from c [] xs)" by simp
    then show ?thesis
    proof
      assume "l = p"
      then show ?thesis by (simp add: sublist_append_rightI)
    next
      assume "l \<in> set (split_from c [] xs)"
      then have "sublist l xs" using Cons.IH [of "[]"] by simp
      then have "sublist l ((p @ [x]) @ xs)"
        using sublist_append_leftI [of xs "p @ [x]"] by (rule sublist_order.order.trans)
      then show ?thesis by simp
    qed
  next
    case False
    with Cons.prems have "l \<in> set (split_from c (p @ [x]) xs)" by simp
    then have "sublist l ((p @ [x]) @ xs)" by (rule Cons.IH)
    then show ?thesis by simp
  qed
qed

lemma startswith_prefix: "startswith s p \<longleftrightarrow> prefix p s"
  unfolding startswith_def
  by (metis append_eq_conv_conj prefix_def)

lemma str_contains_sublist: "str_contains sub s \<longleftrightarrow> sublist sub s"
  by (induction s) (auto simp: startswith_prefix sublist_Cons_right)

lemma sublist_strip: "sublist (strip l) l"
proof -
  have "suffix (dropWhile is_space (rev (dropWhile is_space l))) (rev (dropWhile is_space l))"
    by (rule suffix_dropWhile)
  then have "prefix (strip l) (dropWhile is_space l)"
    by (simp add: strip_def suffix_to_prefix)
  moreover have "suffix (dropWhile is_space l) l" by (rule suffix_dropWhile)
  ultimately show ?thesis
    by (meson prefix_imp_sublist suffix_imp_sublist sublist_order.order.trans)
qed

lemma separator_line_contains:
  assumes "startswith (strip l) sep"
  shows "sublist sep l"
proof -
  from assms have "sublist sep (strip l)" by (simp add: startswith_prefix)
  then show ?thesis using sublist_strip by (rule sublist_order.order.trans)
qed

lemma plain_lines:
  assumes "\<not> str_contains (lit ''# COMMAND ----------'') s" and "l \<in> set (split_char NL s)"
  shows "\<not> startswith (strip l) (lit ''# COMMAND ----------'')"
proof
  assume "startswith (strip l) (lit ''# COMMAND ----------'')"
  then have "sublist (lit ''# COMMAND ----------'') l" by (rule separator_line_contains)
  moreover from assms(2) have "sublist l s"
    using split_from_sublist [of l NL "[]" s] by (simp add: split_char_def)
  ultimately have "sublist (lit ''# COMMAND ----------'') s" by (rule sublist_order.order.trans)
  with assms(1) show False by (simp add: str_contains_sublist)
qed

lemma parse_lines_plain:
  "\<forall>l\<in>set ls. \<not> startswith (strip l) (lit ''# COMMAND ----------'') \<Longrightarrow>
   parse_lines (ls @ rest) cells cur = parse_lines rest cells (cur @ ls)"
  by (induction ls arbitrary: cur) auto

lemma separator_is_separator_line:
  "startswith (strip CELL_SEPARATOR) (lit ''# COMMAND ----------'')"
  by (simp add: CELL_SEPARATOR_def startswith_def strip_def lit_def is_space_def)

lemma separator_no_newline: "NL \<notin> set CELL_SEPARATOR"
  by (simp add: CELL_SEPARATOR_def lit_def NL_def)

lemma split_reconstruct_step:
  "split_char NL (s @ ([NL, NL] @ CELL_SEPARATOR @ [NL, NL]) @ r) =
     split_char NL s @ [[], CELL_SEPARATOR, []] @ split_char NL r"
proof -
  have "split_from NL [] (CELL_SEPARATOR @ NL # NL # r) =
          [CELL_SEPARATOR, []] @ split_from NL [] r"
    using split_from_append_sep [of NL "[]" CELL_SEPARATOR "NL # r"]
    by (simp add: split_from_no_sep separator_no_newline)
  then have "split_from NL [] (NL # CELL_SEPARATOR @ NL # NL # r) =
          [[], CELL_SEPARATOR, []] @ split_from NL [] r"
    by simp
  then show ?thesis
    using split_from_append_sep [of NL "[]" s "NL # CELL_SEPARATOR @ NL # NL # r"]
    by (simp add: split_char_def)
qed

lemma parse_lines_segment_last:
  assumes "\<not> str_contains (lit ''# COMMAND ----------'') s"
  shows "parse_lines (split_char NL s) cells cur = cells @ [join [NL] (cur @ split_char NL s)]"
proof -
  have "parse_lines (split_char NL s @ []) cells cur = parse_lines [] cells (cur @ split_char NL s)"
    using assms by (intro parse_lines_plain) (auto dest: plain_lines)
  then show ?thesis by (simp add: split_char_def split_from_nonempty)
qed

lemma parse_lines_segment_sep:
  assumes "\<not> str_contains (lit ''# COMMAND ----------'') s"
  shows "parse_lines (split_char NL s @ [] # CELL_SEPARATOR # [] # rest) cells cur =
           parse_lines rest (cells @ [join [NL] (cur @ split_char NL s @ [[]])]) [[]]"
proof -
  have blank: "\<not> startswith (strip []) (lit ''# COMMAND ----------'')"
    by (simp add: startswith_def strip_def lit_def)
  have plain: "\<forall>l\<in>set (split_char NL s @ [[]]). \<not> startswith (strip l) (lit ''# COMMAND ----------'')"
    using assms blank by (auto dest: plain_lines)
  have "parse_lines ((split_char NL s @ [[]]) @ CELL_SEPARATOR # [] # rest) cells cur =
          parse_lines (CELL_SEPARATOR # [] # rest) cells (cur @ split_char NL s @ [[]])"
    using plain by (rule parse_lines_plain)
  also have "\<dots> = parse_lines ([] # rest) (cells @ [join [NL] (cur @ split_char NL s @ [[]])]) []"
    using separator_is_separator_line by simp
  also have "\<dots> = parse_lines rest (cells @ [join [NL] (cur @ split_char NL s @ [[]])]) [[]]"
    using blank by simp
  finally show ?thesis by simp
qed

lemma join_lines: "join [NL] (split_char NL s) = s"
  by (simp add: split_char_def join_split_from)

lemma join_lines_after: "join [NL] ([] # split_char NL s) = NL # s"
  by (simp add: join_Cons split_char_def split_from_nonempty join_split_from)

lemma join_lines_before: "join [NL] (split_char NL s @ [[]]) = s @ [NL]"
  by (simp add: join_snoc split_char_def split_from_nonempty join_split_from)

lemma join_lines_between: "join [NL] ([] # split_char NL s @ [[]]) = NL # s @ [NL]"
  using join_snoc [of "[] # split_char NL s" "[NL]" "[]"] by (simp add: join_lines_after)

lemma reconstruct_Cons:
  "reconstruct_notebook (s # t # ts) =
     s @ ([NL, NL] @ CELL_SEPARATOR @ [NL, NL]) @ reconstruct_notebook (t # ts)"
  by (simp add: reconstruct_notebook_def)

lemma parse_reconstruct_general:
  assumes "\<forall>s\<in>set (s # ts). \<not> str_contains (lit ''# COMMAND ----------'') s"
  shows "parse_lines (split_char NL (reconstruct_notebook (s # ts))) cells [] =
           cells @ respaced (s # ts) \<and>
         parse_lines (split_char NL (reconstruct_notebook (s # ts))) cells [[]] =
           cells @ spaced_after (s # ts)"
  using assms
proof (induction ts arbitrary: s cells)
  case Nil
  then show ?case
    by (simp add: reconstruct_notebook_def parse_lines_segment_last join_lines join_lines_after)
next
  case (Cons t ts)
  from Cons.prems have s: "\<not> str_contains (lit ''# COMMAND ----------'') s"
    and rest: "\<forall>s\<in>set (t # ts). \<not> str_contains (lit ''# COMMAND ----------'') s"
    by simp_all
  note ih = Cons.IH [OF rest]
  have lines: "split_char NL (reconstruct_notebook (s # t # ts)) =
      split_char NL s @ [[], CELL_SEPARATOR, []] @ split_char NL (reconstruct_notebook (t # ts))"
    by (simp only: reconstruct_Cons split_reconstruct_step)
  have "parse_lines (split_char NL (reconstruct_notebook (s # t # ts))) cells [] =
          cells @ respaced (s # t # ts)"
    using ih [of "cells @ [s @ [NL]]"]
    by (simp add: lines parse_lines_segment_sep [OF s] join_lines_before)
  moreover have "parse_lines (split_char NL (reconstruct_notebook (s # t # ts))) cells [[]] =
          cells @ spaced_after (s # t # ts)"
    using ih [of "cells @ [NL # s @ [NL]]"]
    by (simp add: lines parse_lines_segment_sep [OF s] join_lines_between)
  ultimately show ?case by simp
qed

lemma blank_line_plain: "\<not> startswith (strip []) (lit ''# COMMAND ----------'')"
  by (simp add: startswith_def strip_def lit_def)

lemma parse_reconstruct_empty: "parse_notebook_cells (reconstruct_notebook []) = [[]]"
  by (simp add: parse_notebook_cells_def reconstruct_notebook_def split_char_def blank_line_plain)

lemma respaced_nth:
  "length (respaced S) = length S \<and> length (spaced_after S) = length S \<and>
   (\<forall>i<length S. respaced S ! i =
      (if 0 < i then [NL] else []) @ S ! i @ (if Suc i < length S then [NL] else [])) \<and>
   (\<forall>i<length S. spaced_after S ! i = NL # S ! i @ (if Suc i < length S then [NL] else []))"
proof (induction S rule: spaced_after.induct)
  case 1
  then show ?case by simp
next
  case (2 t)
  then show ?case by simp
next
  case (3 t u us)
  then show ?case by (auto simp: nth_Cons split: nat.splits)
qed



text \<open>
  C7. The document \<^verbatim>\<open>"a\n# COMMAND ----------\nb\n# COMMAND ----------\nc"\<close> parses to the
  segments \<open>a\<close>, \<open>b\<close>, \<open>c\<close>; replacing the segment at index 1 with \<open>B\<close> (as the update loop
  does) and reconstructing gives
  \<^verbatim>\<open>"a\n\n# COMMAND ----------\n\nB\n\n# COMMAND ----------\n\nc"\<close>.
\<close>

theorem scenario_parse_update_reconstruct:
  "parse_notebook_cells
     (lit ''a\<newline># COMMAND ----------\<newline>b\<newline># COMMAND ----------\<newline>c'') =
     [lit ''a'', lit ''b'', lit ''c''] \<and>
   apply_updates [lit ''a'', lit ''b'', lit ''c''] [\<lparr>u_index = 1, u_content = lit ''B''\<rparr>] [] =
     Inr ([lit ''a'', lit ''B'', lit ''c''], [1]) \<and>
   reconstruct_notebook [lit ''a'', lit ''B'', lit ''c''] =
     lit ''a\<newline>\<newline># COMMAND ----------\<newline>\<newline>B\<newline>\<newline># COMMAND ----------\<newline>\<newline>c''"
proof -
  have "parse_notebook_cells
     (lit ''a\<newline># COMMAND ----------\<newline>b\<newline># COMMAND ----------\<newline>c'') =
     [lit ''a'', lit ''b'', lit ''c'']"
    by (simp add: parse_notebook_cells_def split_char_def lit_def NL_def startswith_def strip_def
        is_space_def)
  moreover have "apply_updates [lit ''a'', lit ''b'', lit ''c'']
      [\<lparr>u_index = 1, u_content = lit ''B''\<rparr>] [] = Inr ([lit ''a'', lit ''B'', lit ''c''], [1])"
    by (simp add: list_setitem_def)
  moreover have "reconstruct_notebook [lit ''a'', lit ''B'', lit ''c''] =
     lit ''a\<newline>\<newline># COMMAND ----------\<newline>\<newline>B\<newline>\<newline># COMMAND ----------\<newline>\<newline>c''"
    by (simp add: reconstruct_notebook_def CELL_SEPARATOR_def lit_def NL_def)
  ultimately show ?thesis by simp
qed

text \<open>
  C3, as the code has it. For segments that do not contain the separator token, parsing the
  reconstruction gives the segments back with the separator spacing in them: every segment
  but the last has a newline appended and every segment but the first a newline prepended
  (\<open>respaced\<close>); the empty list of segments comes back as one empty segment. So the round
  trip is the identity for a single segment only.
\<close>

theorem parse_reconstruct_respaced:
  assumes "\<forall>s\<in>set S. \<not> str_contains CELL_SEPARATOR s"
  shows "parse_notebook_cells (reconstruct_notebook S) = (if S = [] then [[]] else respaced S)"
proof (cases S)
  case Nil
  then show ?thesis by (simp add: parse_reconstruct_empty)
next
  case (Cons s ts)
  with assms have "\<forall>s\<in>set (s # ts). \<not> str_contains (lit ''# COMMAND ----------'') s"
    by (simp add: CELL_SEPARATOR_def)
  then have "parse_lines (split_char NL (reconstruct_notebook (s # ts))) [] [] =
      [] @ respaced (s # ts)"
    using parse_reconstruct_general [of s ts "[]"] by blast
  with Cons show ?thesis by (simp add: parse_notebook_cells_def)
qed

theorem parse_reconstruct_respaced_witness:
  "\<not> str_contains CELL_SEPARATOR (lit ''a'') \<and> \<not> str_contains CELL_SEPARATOR (lit ''b'') \<and>
   \<not> str_contains CELL_SEPARATOR (lit ''c'') \<and>
   parse_notebook_cells (reconstruct_notebook [lit ''a'', lit ''b'', lit ''c'']) =
     [lit ''a'' @ [NL], NL # lit ''b'' @ [NL], NL # lit ''c'']"
  using parse_reconstruct_respaced [of "[lit ''a'', lit ''b'', lit ''c'']"]
  by (simp add: CELL_SEPARATOR_def lit_def startswith_def)

theorem parse_reconstruct_counterexample:
  "\<not> str_contains CELL_SEPARATOR (lit ''a'') \<and> \<not> str_contains CELL_SEPARATOR (lit ''b'') \<and>
   parse_notebook_cells (reconstruct_notebook [lit ''a'', lit ''b'']) =
     [lit ''a'' @ [NL], NL # lit ''b''] \<and>
   parse_notebook_cells (reconstruct_notebook [lit ''a'', lit ''b'']) \<noteq> [lit ''a'', lit ''b'']"
  by (simp add: parse_notebook_cells_def split_char_def reconstruct_notebook_def
      CELL_SEPARATOR_def lit_def NL_def startswith_def strip_def is_space_def)

subsection \<open>Updating cells\<close>

lemma validate_updates_None_iff:
  "validate_updates cells us = None \<longleftrightarrow> (\<forall>u\<in>set us. update_ok cells u)"
  by (induction us) (auto simp: update_ok_def Let_def split: prod.splits)

lemma validate_updates_first_failure:
  assumes "\<forall>v\<in>set pre. update_ok cells v" and "\<not> update_ok cells u"
  shows "validate_updates cells (pre @ u # post) = Some (update_error cells u)"
  using assms
  by (induction pre) (auto simp: update_ok_def update_error_def Let_def split: prod.splits)

lemma apply_updates_ok:
  assumes "\<forall>u\<in>set us. update_ok cells u"
  shows "apply_updates cells us done = Inr (cells_after cells us, done @ map u_index us)"
  using assms
proof (induction us arbitrary: cells "done")
  case Nil
  then show ?case by (simp add: cells_after_def)
next
  case (Cons u us)
  from Cons.prems have u: "0 \<le> u_index u" "u_index u < int (length cells)"
    by (simp_all add: update_ok_def)
  then have set: "list_setitem cells (u_index u) (u_content u) =
      Inr (cells[nat (u_index u) := u_content u])"
    by (simp add: list_setitem_def)
  from Cons.prems have "\<forall>v\<in>set us. update_ok (cells[nat (u_index u) := u_content u]) v"
    by (simp add: update_ok_def)
  then show ?case
    using Cons.IH [of "cells[nat (u_index u) := u_content u]" "done @ [u_index u]"]
    by (simp add: set cells_after_def)
qed

lemma length_cells_after: "length (cells_after cells us) = length cells"
  by (induction us arbitrary: cells) (simp_all add: cells_after_def)



lemma update_modes:
  "cell_index \<noteq> None \<and> updates \<noteq> None \<Longrightarrow>
     update_notebook_cell ws p cell_index new_content updates =
       (Inr (error_result (lit ''Provide either cell_index+new_content OR updates, not both'')), ws)"
  "cell_index = None \<and> updates = None \<Longrightarrow>
     update_notebook_cell ws p cell_index new_content updates =
       (Inr (error_result (lit ''Must provide either cell_index+new_content or updates array'')), ws)"
  "cell_index \<noteq> None \<and> updates = None \<and> new_content = None \<Longrightarrow>
     update_notebook_cell ws p cell_index new_content updates =
       (Inr (error_result (lit ''new_content is required when using cell_index'')), ws)"
  by (simp_all add: update_notebook_cell_def)

lemma update_checked:
  assumes "notebooks ws p = Some source"
    and "(\<exists>i c. cell_index = Some i \<and> new_content = Some c \<and> updates = None) \<or>
         (\<exists>us. cell_index = None \<and> updates = Some us)"
  shows "update_notebook_cell ws p cell_index new_content updates =
     (case validate_updates (parse_notebook_cells source)
             (updates_to_apply cell_index new_content updates) of
        Some err \<Rightarrow> (Inr err, ws)
      | None \<Rightarrow>
          if \<not> utf8_encodable
                 (reconstruct_notebook
                    (cells_after (parse_notebook_cells source)
                       (updates_to_apply cell_index new_content updates)))
          then (Inl UnicodeEncodeError, ws)
          else
            (Inr (success_result p
                    (map u_index (updates_to_apply cell_index new_content updates))
                    (length (parse_notebook_cells source))),
             workspace_import ws p
               (reconstruct_notebook
                  (cells_after (parse_notebook_cells source)
                     (updates_to_apply cell_index new_content updates)))))"
proof -
  have export: "workspace_export ws p = Inr source"
    using assms(1) by (simp add: workspace_export_def)
  have step: "update_notebook_cell ws p cell_index new_content updates =
      (case validate_updates (parse_notebook_cells source)
              (updates_to_apply cell_index new_content updates) of
         Some err \<Rightarrow> (Inr err, ws)
       | None \<Rightarrow>
          (case apply_updates (parse_notebook_cells source)
                  (updates_to_apply cell_index new_content updates) [] of
             Inl e \<Rightarrow> (Inl e, ws)
           | Inr (cells', updated_indices) \<Rightarrow>
               if \<not> utf8_encodable (reconstruct_notebook cells') then (Inl UnicodeEncodeError, ws)
               else (Inr (success_result p updated_indices (length cells')),
                     workspace_import ws p (reconstruct_notebook cells'))))"
    using assms(2)
    by (elim disjE exE conjE)
      (simp_all add: update_notebook_cell_def export Let_def
        cong: option.case_cong sum.case_cong)
  show ?thesis
  proof (cases "validate_updates (parse_notebook_cells source)
                  (updates_to_apply cell_index new_content updates)")
    case None
    then have "\<forall>u\<in>set (updates_to_apply cell_index new_content updates).
        update_ok (parse_notebook_cells source) u"
      by (simp add: validate_updates_None_iff)
    then have "apply_updates (parse_notebook_cells source)
        (updates_to_apply cell_index new_content updates) [] =
        Inr (cells_after (parse_notebook_cells source)
               (updates_to_apply cell_index new_content updates),
             [] @ map u_index (updates_to_apply cell_index new_content updates))"
      by (rule apply_updates_ok)
    with None show ?thesis by (simp add: step length_cells_after)
  next
    case (Some err)
    then show ?thesis by (simp add: step)
  qed
qed

lemma import_changes_log: "import_calls (workspace_import ws p c) \<noteq> import_calls ws"
  by (simp add: workspace_import_def)


lemma update_export_fails:
  assumes "notebooks ws p = None"
  shows "snd (update_notebook_cell ws p cell_index new_content updates) = ws"
  using assms by (simp add: update_notebook_cell_def workspace_export_def Let_def)

lemma first_failing_update:
  assumes "\<exists>u\<in>set us. \<not> update_ok cells u"
  shows "\<exists>pre u post. us = pre @ u # post \<and> (\<forall>v\<in>set pre. update_ok cells v) \<and>
           \<not> update_ok cells u"
proof -
  from assms obtain pre u post where
    "us = pre @ u # post" "\<not> update_ok cells u" "\<forall>v\<in>set pre. \<not> \<not> update_ok cells v"
    using split_list_first_prop [of us "\<lambda>u. \<not> update_ok cells u"] by blast
  then show ?thesis by auto
qed

lemma scenario_cells:
  "parse_notebook_cells scenario_source = [lit ''a'', lit ''b'', lit ''c'']"
  by (simp add: scenario_source_def parse_notebook_cells_def split_char_def lit_def NL_def
      startswith_def strip_def is_space_def)

lemma scenario_notebook: "notebooks scenario_workspace (lit ''/nb'') = Some scenario_source"
  by (simp add: scenario_workspace_def)

text \<open>
  C2. A call of \<open>update_notebook_cell\<close> whose input fails validation returns an error result
  and leaves the workspace as it was, with no call of \<^verbatim>\<open>import_\<close>: when both \<open>cell_index\<close>
  and \<open>updates\<close> are given, when neither is, when \<open>cell_index\<close> comes without \<open>new_content\<close>,
  and, for a notebook that exists, when some update has an index outside the cells or a
  content that holds the separator token. In the last case the error is the one of the first
  failing update and names its index (and the number of cells and the valid range when the
  index is out of bounds). A call that does reach \<^verbatim>\<open>import_\<close> had every update pass both checks.
\<close>

theorem update_validation_no_write:
  "(cell_index \<noteq> None \<and> updates \<noteq> None \<longrightarrow>
      update_notebook_cell ws p cell_index new_content updates =
        (Inr (error_result
           (lit ''Provide either cell_index+new_content OR updates, not both'')), ws)) \<and>
   (cell_index = None \<and> updates = None \<longrightarrow>
      update_notebook_cell ws p cell_index new_content updates =
        (Inr (error_result
           (lit ''Must provide either cell_index+new_content or updates array'')), ws)) \<and>
   (cell_index \<noteq> None \<and> updates = None \<and> new_content = None \<longrightarrow>
      update_notebook_cell ws p cell_index new_content updates =
        (Inr (error_result (lit ''new_content is required when using cell_index'')), ws)) \<and>
   (((\<exists>i c. cell_index = Some i \<and> new_content = Some c \<and> updates = None) \<or>
     (\<exists>us. cell_index = None \<and> updates = Some us)) \<and>
    notebooks ws p = Some source \<and>
    (\<exists>u\<in>set (updates_to_apply cell_index new_content updates).
        \<not> update_ok (parse_notebook_cells source) u) \<longrightarrow>
      (\<exists>pre u post.
         updates_to_apply cell_index new_content updates = pre @ u # post \<and>
         (\<forall>v\<in>set pre. update_ok (parse_notebook_cells source) v) \<and>
         \<not> update_ok (parse_notebook_cells source) u \<and>
         update_notebook_cell ws p cell_index new_content updates =
           (Inr (update_error (parse_notebook_cells source) u), ws))) \<and>
   (import_calls (snd (update_notebook_cell ws p cell_index new_content updates)) \<noteq>
      import_calls ws \<longrightarrow>
      ((\<exists>i c. cell_index = Some i \<and> new_content = Some c \<and> updates = None) \<or>
       (\<exists>us. cell_index = None \<and> updates = Some us)) \<and>
      (\<exists>src. notebooks ws p = Some src \<and>
         (\<forall>u\<in>set (updates_to_apply cell_index new_content updates).
            update_ok (parse_notebook_cells src) u)))"
proof (intro conjI impI)
  assume "cell_index \<noteq> None \<and> updates \<noteq> None"
  then show "update_notebook_cell ws p cell_index new_content updates =
      (Inr (error_result
         (lit ''Provide either cell_index+new_content OR updates, not both'')), ws)"
    by (rule update_modes)
next
  assume "cell_index = None \<and> updates = None"
  then show "update_notebook_cell ws p cell_index new_content updates =
      (Inr (error_result
         (lit ''Must provide either cell_index+new_content or updates array'')), ws)"
    by (rule update_modes)
next
  assume "cell_index \<noteq> None \<and> updates = None \<and> new_content = None"
  then show "update_notebook_cell ws p cell_index new_content updates =
      (Inr (error_result (lit ''new_content is required when using cell_index'')), ws)"
    by (rule update_modes)
next
  let ?cells = "parse_notebook_cells source"
  let ?us = "updates_to_apply cell_index new_content updates"
  assume a: "((\<exists>i c. cell_index = Some i \<and> new_content = Some c \<and> updates = None) \<or>
     (\<exists>us. cell_index = None \<and> updates = Some us)) \<and>
    notebooks ws p = Some source \<and> (\<exists>u\<in>set ?us. \<not> update_ok ?cells u)"
  then obtain pre u post where split: "?us = pre @ u # post"
    "\<forall>v\<in>set pre. update_ok ?cells v" "\<not> update_ok ?cells u"
    using first_failing_update [of ?us ?cells] by blast
  then have "validate_updates ?cells ?us = Some (update_error ?cells u)"
    by (simp add: validate_updates_first_failure)
  with a have "update_notebook_cell ws p cell_index new_content updates =
      (Inr (update_error ?cells u), ws)"
    by (simp add: update_checked)
  with split show "\<exists>pre u post. ?us = pre @ u # post \<and>
      (\<forall>v\<in>set pre. update_ok ?cells v) \<and> \<not> update_ok ?cells u \<and>
      update_notebook_cell ws p cell_index new_content updates =
        (Inr (update_error ?cells u), ws)"
    by blast
next
  assume w: "import_calls (snd (update_notebook_cell ws p cell_index new_content updates)) \<noteq>
      import_calls ws"
  show mode: "(\<exists>i c. cell_index = Some i \<and> new_content = Some c \<and> updates = None) \<or>
       (\<exists>us. cell_index = None \<and> updates = Some us)"
  proof (rule ccontr)
    assume "\<not> ?thesis"
    then have "(cell_index \<noteq> None \<and> updates \<noteq> None) \<or> (cell_index = None \<and> updates = None) \<or>
        (cell_index \<noteq> None \<and> updates = None \<and> new_content = None)"
      by (cases cell_index; cases new_content; cases updates) auto
    then have "snd (update_notebook_cell ws p cell_index new_content updates) = ws"
      by (auto simp: update_modes)
    with w show False by simp
  qed
  show "\<exists>src. notebooks ws p = Some src \<and>
         (\<forall>u\<in>set (updates_to_apply cell_index new_content updates).
            update_ok (parse_notebook_cells src) u)"
  proof (cases "notebooks ws p")
    case None
    then have "snd (update_notebook_cell ws p cell_index new_content updates) = ws"
      by (rule update_export_fails)
    with w show ?thesis by simp
  next
    case (Some src)
    have "validate_updates (parse_notebook_cells src)
        (updates_to_apply cell_index new_content updates) = None"
    proof (cases "validate_updates (parse_notebook_cells src)
        (updates_to_apply cell_index new_content updates)")
      case None
      then show ?thesis .
    next
      case (Some err)
      with \<open>notebooks ws p = Some src\<close> mode
      have "snd (update_notebook_cell ws p cell_index new_content updates) = ws"
        by (simp add: update_checked)
      with w show ?thesis by simp
    qed
    with Some show ?thesis by (simp add: validate_updates_None_iff)
  qed
qed

theorem update_validation_no_write_witness:
  "update_notebook_cell scenario_workspace (lit ''/nb'') (Some 0) (Some (lit ''x'')) (Some []) =
     (Inr (error_result (lit ''Provide either cell_index+new_content OR updates, not both'')),
      scenario_workspace) \<and>
   update_notebook_cell scenario_workspace (lit ''/nb'') None None None =
     (Inr (error_result (lit ''Must provide either cell_index+new_content or updates array'')),
      scenario_workspace) \<and>
   update_notebook_cell scenario_workspace (lit ''/nb'') (Some 0) None None =
     (Inr (error_result (lit ''new_content is required when using cell_index'')),
      scenario_workspace) \<and>
   update_notebook_cell scenario_workspace (lit ''/nb'') None None
       (Some [\<lparr>u_index = 0, u_content = lit ''x''\<rparr>, \<lparr>u_index = 7, u_content = lit ''y''\<rparr>,
              \<lparr>u_index = 1, u_content = lit ''z''\<rparr>]) =
     (Inr (error_result
        (lit ''Cell index 7 out of bounds (notebook has 3 cells, indices 0-2)'')),
      scenario_workspace) \<and>
   update_notebook_cell scenario_workspace (lit ''/nb'') (Some 1)
       (Some (lit ''# COMMAND x ----------'')) None =
     (Inr (error_result
        (lit ''Invalid content for cell 1: Cell content cannot contain '' @ [39] @
         lit ''# COMMAND ----------'' @ [39] @
         lit '' separator - this would corrupt notebook structure'')),
      scenario_workspace) \<and>
   update_notebook_cell scenario_workspace (lit ''/nb'') (Some 1) (Some (lit ''B'')) None =
     (Inr (success_result (lit ''/nb'') [1] 3),
      workspace_import scenario_workspace (lit ''/nb'')
        (lit ''a\<newline>\<newline># COMMAND ----------\<newline>\<newline>B\<newline>\<newline># COMMAND ----------\<newline>\<newline>c''))"
proof -
  let ?p = "lit ''/nb''"
  let ?batch = "[\<lparr>u_index = 0, u_content = lit ''x''\<rparr>, \<lparr>u_index = 7, u_content = lit ''y''\<rparr>,
                 \<lparr>u_index = 1, u_content = lit ''z''\<rparr>]"
  have ok0: "update_ok [lit ''a'', lit ''b'', lit ''c''] \<lparr>u_index = 0, u_content = lit ''x''\<rparr>"
    by (simp add: update_ok_def validate_cell_content_def lit_def startswith_def)
  have bad7: "\<not> update_ok [lit ''a'', lit ''b'', lit ''c''] \<lparr>u_index = 7, u_content = lit ''y''\<rparr>"
    by (simp add: update_ok_def)
  have err7: "update_error [lit ''a'', lit ''b'', lit ''c''] \<lparr>u_index = 7, u_content = lit ''y''\<rparr> =
      error_result (lit ''Cell index 7 out of bounds (notebook has 3 cells, indices 0-2)'')"
    by (simp add: update_error_def out_of_bounds_message_def str_int_def digits.simps lit_def)
  have "update_notebook_cell scenario_workspace ?p (Some 0) (Some (lit ''x'')) (Some []) =
     (Inr (error_result (lit ''Provide either cell_index+new_content OR updates, not both'')),
      scenario_workspace)"
    using update_validation_no_write [of "Some 0" "Some []" scenario_workspace ?p "Some (lit ''x'')"]
    by simp
  moreover have "update_notebook_cell scenario_workspace ?p None None None =
     (Inr (error_result (lit ''Must provide either cell_index+new_content or updates array'')),
      scenario_workspace)"
    using update_validation_no_write [of None None scenario_workspace ?p None] by simp
  moreover have "update_notebook_cell scenario_workspace ?p (Some 0) None None =
     (Inr (error_result (lit ''new_content is required when using cell_index'')),
      scenario_workspace)"
    using update_validation_no_write [of "Some 0" None scenario_workspace ?p None] by simp
  moreover have "update_notebook_cell scenario_workspace ?p None None (Some ?batch) =
     (Inr (error_result
        (lit ''Cell index 7 out of bounds (notebook has 3 cells, indices 0-2)'')),
      scenario_workspace)"
  proof -
    have "\<exists>pre u post. ?batch = pre @ u # post \<and>
        (\<forall>v\<in>set pre. update_ok [lit ''a'', lit ''b'', lit ''c''] v) \<and>
        \<not> update_ok [lit ''a'', lit ''b'', lit ''c''] u \<and>
        update_notebook_cell scenario_workspace ?p None None (Some ?batch) =
          (Inr (update_error [lit ''a'', lit ''b'', lit ''c''] u), scenario_workspace)"
      using update_validation_no_write
        [of None "Some ?batch" scenario_workspace ?p None scenario_source]
        bad7
      by (simp add: scenario_notebook scenario_cells updates_to_apply_def)
    then obtain pre u post where split: "?batch = pre @ u # post"
      and pre: "\<forall>v\<in>set pre. update_ok [lit ''a'', lit ''b'', lit ''c''] v"
      and u: "\<not> update_ok [lit ''a'', lit ''b'', lit ''c''] u"
      and res: "update_notebook_cell scenario_workspace ?p None None (Some ?batch) =
          (Inr (update_error [lit ''a'', lit ''b'', lit ''c''] u), scenario_workspace)"
      by blast
    have "u = \<lparr>u_index = 7, u_content = lit ''y''\<rparr>"
    proof (cases pre)
      case Nil
      with split u ok0 show ?thesis by simp
    next
      case (Cons a pre')
      with split have a: "a = \<lparr>u_index = 0, u_content = lit ''x''\<rparr>"
        and rest: "[\<lparr>u_index = 7, u_content = lit ''y''\<rparr>, \<lparr>u_index = 1, u_content = lit ''z''\<rparr>] =
          pre' @ u # post"
        by simp_all
      show ?thesis
      proof (cases pre')
        case Nil
        with rest show ?thesis by simp
      next
        case (Cons b pre'')
        with rest have "b = \<lparr>u_index = 7, u_content = lit ''y''\<rparr>" by simp
        with pre \<open>pre = a # pre'\<close> Cons bad7 show ?thesis by simp
      qed
    qed
    with res err7 show ?thesis by simp
  qed
  moreover have "update_notebook_cell scenario_workspace ?p (Some 1)
       (Some (lit ''# COMMAND x ----------'')) None =
     (Inr (error_result
        (lit ''Invalid content for cell 1: Cell content cannot contain '' @ [39] @
         lit ''# COMMAND ----------'' @ [39] @
         lit '' separator - this would corrupt notebook structure'')),
      scenario_workspace)"
  proof -
    have "validate_cell_content (lit ''# COMMAND x ----------'') =
        (False, lit ''Cell content cannot contain '' @ [39] @ lit ''# COMMAND ----------'' @ [39] @
           lit '' separator - this would corrupt notebook structure'')"
      by (simp add: validate_cell_content_def) (simp add: lit_def startswith_def)
    then have "validate_updates [lit ''a'', lit ''b'', lit ''c'']
        [\<lparr>u_index = 1, u_content = lit ''# COMMAND x ----------''\<rparr>] =
        Some (error_result
          (lit ''Invalid content for cell 1: Cell content cannot contain '' @ [39] @
           lit ''# COMMAND ----------'' @ [39] @
           lit '' separator - this would corrupt notebook structure''))"
      by (simp add: invalid_content_message_def str_int_def digits.simps) (simp add: lit_def)
    then show ?thesis
      using update_checked [of scenario_workspace ?p scenario_source "Some 1"
          "Some (lit ''# COMMAND x ----------'')" None]
      by (simp add: scenario_notebook scenario_cells updates_to_apply_def
          del: validate_updates.simps)
  qed
  moreover have "update_notebook_cell scenario_workspace ?p (Some 1) (Some (lit ''B'')) None =
     (Inr (success_result ?p [1] 3),
      workspace_import scenario_workspace ?p
        (lit ''a\<newline>\<newline># COMMAND ----------\<newline>\<newline>B\<newline>\<newline># COMMAND ----------\<newline>\<newline>c''))"
  proof -
    have okB: "update_ok [lit ''a'', lit ''b'', lit ''c''] \<lparr>u_index = 1, u_content = lit ''B''\<rparr>"
      by (simp add: update_ok_def validate_cell_content_def lit_def startswith_def)
    have "validate_updates [lit ''a'', lit ''b'', lit ''c'']
        [\<lparr>u_index = 1, u_content = lit ''B''\<rparr>] = None"
      using okB by (simp add: validate_updates_None_iff del: validate_updates.simps)
    moreover have "reconstruct_notebook
        (cells_after [lit ''a'', lit ''b'', lit ''c''] [\<lparr>u_index = 1, u_content = lit ''B''\<rparr>]) =
        lit ''a\<newline>\<newline># COMMAND ----------\<newline>\<newline>B\<newline>\<newline># COMMAND ----------\<newline>\<newline>c''"
      by (simp add: cells_after_def reconstruct_notebook_def CELL_SEPARATOR_def lit_def NL_def)
    moreover have "utf8_encodable
        (lit ''a\<newline>\<newline># COMMAND ----------\<newline>\<newline>B\<newline>\<newline># COMMAND ----------\<newline>\<newline>c'')"
      by (simp add: utf8_encodable_def lit_def)
    ultimately show ?thesis
      using update_checked [of scenario_workspace ?p scenario_source "Some 1" "Some (lit ''B'')" None]
      by (simp add: scenario_notebook scenario_cells updates_to_apply_def numeral_3_eq_3
          del: validate_updates.simps)
  qed
  ultimately show ?thesis by blast
qed

lemma utf8_encodable_iff: "utf8_encodable s \<longleftrightarrow> (\<forall>c\<in>set s. \<not> (55296 \<le> c \<and> c \<le> 57343))"
  by (simp add: utf8_encodable_def list_all_iff)

lemma utf8_encodable_append:
  "utf8_encodable (a @ b) \<longleftrightarrow> utf8_encodable a \<and> utf8_encodable b"
  by (auto simp: utf8_encodable_iff)








lemma surrogate_content_raises:
  "update_ok (parse_notebook_cells scenario_source) \<lparr>u_index = 1, u_content = [55296]\<rparr> \<and>
   update_notebook_cell scenario_workspace (lit ''/nb'') (Some 1) (Some [55296]) None =
     (Inl UnicodeEncodeError, scenario_workspace)"
proof -
  have ok: "update_ok [lit ''a'', lit ''b'', lit ''c''] \<lparr>u_index = 1, u_content = [55296]\<rparr>"
    by (simp add: update_ok_def validate_cell_content_def lit_def startswith_def)
  then have "validate_updates [lit ''a'', lit ''b'', lit ''c'']
      [\<lparr>u_index = 1, u_content = [55296]\<rparr>] = None"
    by (simp add: validate_updates_None_iff del: validate_updates.simps)
  moreover have "\<not> utf8_encodable
      (reconstruct_notebook (cells_after [lit ''a'', lit ''b'', lit ''c'']
         [\<lparr>u_index = 1, u_content = [55296]\<rparr>]))"
    by (simp add: cells_after_def reconstruct_notebook_def utf8_encodable_append)
      (simp add: utf8_encodable_def)
  ultimately show ?thesis
    using ok update_checked [of scenario_workspace "lit ''/nb''" scenario_source "Some 1"
        "Some [55296]" None]
    by (simp add: scenario_notebook scenario_cells updates_to_apply_def
        del: validate_updates.simps)
qed




text \<open>
  C10. Calling \<open>update_notebook_cell\<close> with \<open>cell_index = i\<close> and \<open>new_content = c\<close> is the same
  as calling it with the batch of the one update \<open>{index: i, content: c}\<close>: the same value
  returned or exception raised, and the same workspace afterwards.
\<close>

theorem single_update_is_batch_of_one:
  "update_notebook_cell ws p (Some i) (Some c) None =
   update_notebook_cell ws p None None (Some [\<lparr>u_index = i, u_content = c\<rparr>])"
  by (simp add: update_notebook_cell_def updates_to_apply_def cong: sum.case_cong)


subsection \<open>Listing clusters\<close>

lemma collect_clusters_eq:
  "collect_clusters filter_by limit cs clusters total_matched =
     (clusters @ map cluster_entry
        (take (nat (limit - int (length clusters))) (filter (cluster_matches filter_by) cs)),
      total_matched + int (length (filter (cluster_matches filter_by) cs)))"
proof (induction cs arbitrary: clusters total_matched)
  case Nil
  then show ?case by simp
next
  case (Cons c cs)
  show ?case
  proof (cases "cluster_matches filter_by c")
    case False
    then consider "filter_by = lit ''running''" "state_of c \<noteq> lit ''RUNNING''"
      | "filter_by = lit ''terminated''" "state_of c \<noteq> lit ''TERMINATED''"
      unfolding cluster_matches_def by blast
    then have "collect_clusters filter_by limit (c # cs) clusters total_matched =
        collect_clusters filter_by limit cs clusters total_matched"
      by cases (simp_all add: Let_def)
    with False show ?thesis
      using Cons.IH [of clusters total_matched] by simp
  next
    case True
    then have n1: "\<not> (filter_by = lit ''running'' \<and> state_of c \<noteq> lit ''RUNNING'')"
      and n2: "\<not> (filter_by = lit ''terminated'' \<and> state_of c \<noteq> lit ''TERMINATED'')"
      unfolding cluster_matches_def by blast+
    have step: "collect_clusters filter_by limit (c # cs) clusters total_matched =
        collect_clusters filter_by limit cs
          (if int (length clusters) < limit then clusters @ [cluster_entry c] else clusters)
          (total_matched + 1)"
      unfolding collect_clusters.simps Let_def if_not_P [OF n1] if_not_P [OF n2] ..
    show ?thesis
    proof (cases "int (length clusters) < limit")
      case lt: True
      then have "nat (limit - int (length clusters)) =
          Suc (nat (limit - int (length (clusters @ [cluster_entry c]))))"
        by simp
      with True lt show ?thesis
        using Cons.IH [of "clusters @ [cluster_entry c]" "total_matched + 1"]
        by (simp add: step del: collect_clusters.simps)
    next
      case ge: False
      then have "nat (limit - int (length clusters)) = 0" by simp
      with True ge show ?thesis
        using Cons.IH [of clusters "total_matched + 1"]
        by (simp add: step del: collect_clusters.simps)
    qed
  qed
qed

lemma list_clusters_eq:
  "list_clusters filter_by_arg (Some requested) listed =
     (let filter_by = (case filter_by_arg of Some f \<Rightarrow> f | None \<Rightarrow> lit ''all'');
          limit = min requested 100;
          matched = filter (cluster_matches filter_by) listed;
          shown = take (nat limit) matched;
          result = [(K ''clusters'', VList (map cluster_entry shown)),
                    (K ''returned'', VInt (int (length shown))),
                    (K ''total_matched'', VInt (int (length matched)))]
      in if int (length matched) > limit
         then result @ [(K ''truncated'', VBool True),
                        (K ''message'', VStr (clusters_message limit (int (length matched))))]
         else result)"
proof -
  have keys: "lit ''clusters'' \<noteq> lit ''truncated''" "lit ''returned'' \<noteq> lit ''truncated''"
    "lit ''total_matched'' \<noteq> lit ''truncated''" "lit ''clusters'' \<noteq> lit ''message''"
    "lit ''returned'' \<noteq> lit ''message''" "lit ''total_matched'' \<noteq> lit ''message''"
    "lit ''truncated'' \<noteq> lit ''message''"
    by (simp_all add: lit_def)
  show ?thesis
    unfolding list_clusters_def collect_clusters_eq Let_def
    by (simp add: keys)
qed


text \<open>
  C9, as the code has it. The effective limit of \<open>list_clusters\<close> is the requested limit
  clamped to at most 100: the result is the one for the clamped limit, and the returned
  clusters are the first ones that pass the filter, at most that many (none for a limit that
  is not positive). The effective limit is reported back, in the message of a result flagged
  as truncated, exactly when more clusters passed the filter than the effective limit; a
  requested limit that was clamped is not reported otherwise.
\<close>

theorem list_clusters_effective_limit:
  "list_clusters filter_by_arg (Some requested) listed =
     list_clusters filter_by_arg (Some (min requested 100)) listed \<and>
   dict_get (list_clusters filter_by_arg (Some requested) listed) (K ''clusters'') =
     Some (VList (map cluster_entry
       (take (nat (min requested 100))
          (filter (cluster_matches (case filter_by_arg of Some f \<Rightarrow> f | None \<Rightarrow> lit ''all''))
             listed)))) \<and>
   int (length (take (nat (min requested 100))
          (filter (cluster_matches (case filter_by_arg of Some f \<Rightarrow> f | None \<Rightarrow> lit ''all''))
             listed))) \<le> max 0 (min requested 100) \<and>
   dict_get (list_clusters filter_by_arg (Some requested) listed) (K ''message'') =
     (if min requested 100 <
           int (length (filter
             (cluster_matches (case filter_by_arg of Some f \<Rightarrow> f | None \<Rightarrow> lit ''all''))
             listed))
      then Some (VStr (clusters_message (min requested 100)
             (int (length (filter
               (cluster_matches (case filter_by_arg of Some f \<Rightarrow> f | None \<Rightarrow> lit ''all''))
               listed)))))
      else None) \<and>
   dict_get (list_clusters filter_by_arg (Some requested) listed) (K ''truncated'') =
     (if min requested 100 <
           int (length (filter
             (cluster_matches (case filter_by_arg of Some f \<Rightarrow> f | None \<Rightarrow> lit ''all''))
             listed))
      then Some (VBool True) else None)"
proof -
  have keys: "lit ''clusters'' \<noteq> lit ''truncated''" "lit ''returned'' \<noteq> lit ''truncated''"
    "lit ''total_matched'' \<noteq> lit ''truncated''" "lit ''clusters'' \<noteq> lit ''message''"
    "lit ''returned'' \<noteq> lit ''message''" "lit ''total_matched'' \<noteq> lit ''message''"
    "lit ''truncated'' \<noteq> lit ''message''"
    by (simp_all add: lit_def)
  have "min (min requested 100) 100 = min requested (100::int)" by simp
  then have "list_clusters filter_by_arg (Some requested) listed =
     list_clusters filter_by_arg (Some (min requested 100)) listed"
    by (simp add: list_clusters_def)
  moreover have "int (length (take (nat (min requested 100)) xs)) \<le> max 0 (min requested 100)"
    for xs :: "cluster list"
  proof -
    have "length (take (nat (min requested 100)) xs) \<le> nat (min requested 100)" by simp
    then show ?thesis by linarith
  qed
  moreover have "dict_get (list_clusters filter_by_arg (Some requested) listed) (K ''clusters'') =
     Some (VList (map cluster_entry
       (take (nat (min requested 100))
          (filter (cluster_matches (case filter_by_arg of Some f \<Rightarrow> f | None \<Rightarrow> lit ''all''))
             listed))))"
    by (simp add: list_clusters_eq Let_def)
  moreover have "dict_get (list_clusters filter_by_arg (Some requested) listed) (K ''message'') =
     (if min requested 100 <
           int (length (filter
             (cluster_matches (case filter_by_arg of Some f \<Rightarrow> f | None \<Rightarrow> lit ''all''))
             listed))
      then Some (VStr (clusters_message (min requested 100)
             (int (length (filter
               (cluster_matches (case filter_by_arg of Some f \<Rightarrow> f | None \<Rightarrow> lit ''all''))
               listed)))))
      else None)"
    by (simp add: list_clusters_eq Let_def keys)
  moreover have "dict_get (list_clusters filter_by_arg (Some requested) listed) (K ''truncated'') =
     (if min requested 100 <
           int (length (filter
             (cluster_matches (case filter_by_arg of Some f \<Rightarrow> f | None \<Rightarrow> lit ''all''))
             listed))
      then Some (VBool True) else None)"
    by (simp add: list_clusters_eq Let_def keys)
  ultimately show ?thesis by blast
qed

theorem list_clusters_clamp_counterexample:
  "min (500::int) 100 = 100 \<and>
   list_clusters None (Some 500) [example_cluster] =
     [(K ''clusters'', VList [cluster_entry example_cluster]),
      (K ''returned'', VInt 1),
      (K ''total_matched'', VInt 1)]"
  by (simp add: list_clusters_eq Let_def cluster_matches_def lit_def)

subsection \<open>Windows and paging\<close>

lemma dict_get_set_same: "dict_get (dict_set d k v) k = Some v"
  by (induction d) auto

lemma dict_get_set_other: "k' \<noteq> k \<Longrightarrow> dict_get (dict_set d k v) k' = dict_get d k'"
  by (induction d) auto

lemma py_slice_window:
  assumes "0 \<le> off" and "0 \<le> lim"
  shows "py_slice xs (Some off) (Some (off + lim)) = take (nat lim) (drop (nat off) xs)"
proof (cases "nat off < length xs")
  case True
  with assms have a: "clamp_index (length xs) off = nat off"
    by (simp add: clamp_index_def)
  from assms have b: "clamp_index (length xs) (off + lim) = min (length xs) (nat off + nat lim)"
    by (auto simp: clamp_index_def nat_add_distrib)
  have "take (min (length xs) (nat off + nat lim) - nat off) (drop (nat off) xs) =
      take (nat lim) (drop (nat off) xs)"
    by (cases "length xs \<le> nat off + nat lim") (simp_all add: min_def)
  then show ?thesis by (simp add: py_slice_def a b)
next
  case False
  with assms have "clamp_index (length xs) off = length xs"
    by (auto simp: clamp_index_def)
  with False show ?thesis by (simp add: py_slice_def)
qed

lemma py_slice_from:
  assumes "0 \<le> off"
  shows "py_slice xs (Some off) None = drop (nat off) xs"
  using assms by (auto simp: py_slice_def clamp_index_def Let_def)

lemma follow_windows:
  fixes xs :: "pyval list"
  assumes lim: "1 \<le> lim"
    and page: "\<And>off. 0 \<le> off \<Longrightarrow> \<exists>r. call off = Some r \<and>
        dict_get r key = Some (VList (take (nat lim) (drop (nat off) xs))) \<and>
        dict_get r (K ''next_offset'') =
          (if off + int (length (take (nat lim) (drop (nat off) xs))) < int (length xs)
           then Some (VInt (off + int (length (take (nat lim) (drop (nat off) xs)))))
           else None)"
  shows "0 \<le> off \<Longrightarrow> length xs - nat off < calls \<Longrightarrow>
         follow_next_offset calls call key off = Some (drop (nat off) xs)"
proof (induction calls arbitrary: off)
  case 0
  then show ?case by simp
next
  case (Suc calls)
  let ?items = "take (nat lim) (drop (nat off) xs)"
  from page [OF Suc.prems(1)] obtain r where r: "call off = Some r"
    "dict_get r key = Some (VList ?items)"
    "dict_get r (K ''next_offset'') =
       (if off + int (length ?items) < int (length xs)
        then Some (VInt (off + int (length ?items))) else None)"
    by blast
  show ?case
  proof (cases "off + int (length ?items) < int (length xs)")
    case True
    with Suc.prems(1) lim have full: "length ?items = nat lim" by auto
    with True Suc.prems lim have "0 \<le> off + lim" "length xs - nat (off + lim) < calls"
      by auto
    then have "follow_next_offset calls call key (off + lim) = Some (drop (nat (off + lim)) xs)"
      by (rule Suc.IH)
    moreover from Suc.prems(1) lim have "nat (off + lim) = nat lim + nat off"
      by (simp add: nat_add_distrib)
    moreover have "?items @ drop (nat lim) (drop (nat off) xs) = drop (nat off) xs"
      by (rule append_take_drop_id)
    ultimately show ?thesis
      using r True full lim by simp
  next
    case False
    with Suc.prems(1) have "length (drop (nat off) xs) \<le> nat lim" by auto
    then have "?items = drop (nat off) xs" by simp
    with r False show ?thesis by simp
  qed
qed

lemma list_notebooks_result:
  "\<exists>items. 
     dict_get (list_notebooks path (Some limit) (Some offset) listed) (K ''items'') =
       Some (VList items) \<and>
     items = py_slice (map notebook_entry listed) (Some offset) (Some (offset + limit)) \<and>
     dict_get (list_notebooks path (Some limit) (Some offset) listed) (K ''returned_count'') =
       Some (VInt (int (length items))) \<and>
     dict_get (list_notebooks path (Some limit) (Some offset) listed) (K ''total_count'') =
       Some (VInt (int (length listed))) \<and>
     dict_get (list_notebooks path (Some limit) (Some offset) listed) (K ''has_more'') =
       (if offset + int (length items) < int (length listed) then Some (VBool True) else None) \<and>
     dict_get (list_notebooks path (Some limit) (Some offset) listed) (K ''next_offset'') =
       (if offset + int (length items) < int (length listed)
        then Some (VInt (offset + int (length items))) else None)"
proof -
  have keys: "lit ''path'' \<noteq> lit ''items''" "lit ''path'' \<noteq> lit ''returned_count''"
    "lit ''items'' \<noteq> lit ''returned_count''" "lit ''total_count'' \<noteq> lit ''returned_count''"
    "lit ''path'' \<noteq> lit ''total_count''" "lit ''items'' \<noteq> lit ''total_count''"
    "lit ''path'' \<noteq> lit ''has_more''" "lit ''items'' \<noteq> lit ''has_more''"
    "lit ''total_count'' \<noteq> lit ''has_more''" "lit ''returned_count'' \<noteq> lit ''has_more''"
    "lit ''offset'' \<noteq> lit ''has_more''"
    "lit ''path'' \<noteq> lit ''next_offset''" "lit ''items'' \<noteq> lit ''next_offset''"
    "lit ''total_count'' \<noteq> lit ''next_offset''" "lit ''returned_count'' \<noteq> lit ''next_offset''"
    "lit ''offset'' \<noteq> lit ''next_offset''" "lit ''has_more'' \<noteq> lit ''next_offset''"
    by (simp_all add: lit_def)
  show ?thesis
    by (simp add: list_notebooks_def Let_def keys keys [symmetric])
qed

lemma read_cells_output:
  "fst (read_cells cell_offset i cells cells_output truncation_info) =
     cells_output @ map shown_cell cells"
  by (induction cells arbitrary: i cells_output truncation_info)
    (simp_all add: shown_cell_def Let_def split: prod.splits)

lemma read_notebook_result:
  assumes "notebooks ws p = Some source"
  shows "\<exists>r window.
     read_notebook ws p (Some cell_offset) cell_limit = Inr r \<and>
     window = (case cell_limit of
                 Some l \<Rightarrow> py_slice (parse_notebook_cells source) (Some cell_offset)
                            (Some (cell_offset + l))
               | None \<Rightarrow> py_slice (parse_notebook_cells source) (Some cell_offset) None) \<and>
     dict_get r (K ''cells'') = Some (VList (map VStr (map shown_cell window))) \<and>
     dict_get r (K ''cells_returned'') = Some (VInt (int (length window))) \<and>
     dict_get r (K ''total_cells'') = Some (VInt (int (length (parse_notebook_cells source)))) \<and>
     dict_get r (K ''has_more'') =
       (if cell_offset + int (length window) < int (length (parse_notebook_cells source))
        then Some (VBool True) else None) \<and>
     dict_get r (K ''next_offset'') =
       (if cell_offset + int (length window) < int (length (parse_notebook_cells source))
        then Some (VInt (cell_offset + int (length window))) else None)"
proof -
  define window where "window =
    (case cell_limit of
       Some l \<Rightarrow> py_slice (parse_notebook_cells source) (Some cell_offset) (Some (cell_offset + l))
     | None \<Rightarrow> py_slice (parse_notebook_cells source) (Some cell_offset) None)"
  obtain out info where loop: "read_cells cell_offset 0 window [] [] = (out, info)"
    by (cases "read_cells cell_offset 0 window [] []")
  then have out: "out = map shown_cell window"
    using read_cells_output [of cell_offset 0 window "[]" "[]"] by simp
  define result where "result =
    [(K ''path'', VStr p),
     (K ''total_cells'', VInt (int (length (parse_notebook_cells source)))),
     (K ''cells_returned'', VInt (int (length out))),
     (K ''cell_offset'', VInt cell_offset),
     (K ''cells'', VList (map VStr out))]"
  define result' where "result' =
    (if info \<noteq> [] then
       dict_set (dict_set result (K ''truncated_cells'') (VDict info)) (K ''truncation_note'')
         (K ''Some cells were truncated. Use cell_offset/cell_limit to read specific cells.'')
     else result)"
  have export: "workspace_export ws p = Inr source"
    using assms by (simp add: workspace_export_def)
  have rn: "read_notebook ws p (Some cell_offset) cell_limit =
      (if cell_offset + int (length out) < int (length (parse_notebook_cells source))
       then Inr (dict_set (dict_set result' (K ''has_more'') (VBool True))
              (K ''next_offset'') (VInt (cell_offset + int (length out))))
       else Inr result')"
    by (simp only: read_notebook_def Let_def export option.case sum.case window_def [symmetric]
        loop prod.case result_def result'_def)
  have base: "dict_get result (K ''cells'') = Some (VList (map VStr out))"
    "dict_get result (K ''cells_returned'') = Some (VInt (int (length out)))"
    "dict_get result (K ''total_cells'') = Some (VInt (int (length (parse_notebook_cells source))))"
    "dict_get result (K ''has_more'') = None"
    "dict_get result (K ''next_offset'') = None"
    by (simp_all add: result_def lit_def)
  have note_keys: "K ''cells'' \<noteq> K ''truncated_cells''" "K ''cells'' \<noteq> K ''truncation_note''"
    "K ''cells_returned'' \<noteq> K ''truncated_cells''" "K ''cells_returned'' \<noteq> K ''truncation_note''"
    "K ''total_cells'' \<noteq> K ''truncated_cells''" "K ''total_cells'' \<noteq> K ''truncation_note''"
    "K ''has_more'' \<noteq> K ''truncated_cells''" "K ''has_more'' \<noteq> K ''truncation_note''"
    "K ''next_offset'' \<noteq> K ''truncated_cells''" "K ''next_offset'' \<noteq> K ''truncation_note''"
    by (simp_all add: lit_def)
  have base': "dict_get result' (K ''cells'') = Some (VList (map VStr out))"
    "dict_get result' (K ''cells_returned'') = Some (VInt (int (length out)))"
    "dict_get result' (K ''total_cells'') = Some (VInt (int (length (parse_notebook_cells source))))"
    "dict_get result' (K ''has_more'') = None"
    "dict_get result' (K ''next_offset'') = None"
    unfolding result'_def using base note_keys
    by (simp_all add: dict_get_set_other)
  have more_keys: "K ''cells'' \<noteq> K ''has_more''" "K ''cells'' \<noteq> K ''next_offset''"
    "K ''cells_returned'' \<noteq> K ''has_more''" "K ''cells_returned'' \<noteq> K ''next_offset''"
    "K ''total_cells'' \<noteq> K ''has_more''" "K ''total_cells'' \<noteq> K ''next_offset''"
    "K ''has_more'' \<noteq> K ''next_offset''"
    by (simp_all add: lit_def)
  show ?thesis
  proof (cases "cell_offset + int (length out) < int (length (parse_notebook_cells source))")
    case True
    with base' more_keys out show ?thesis
      by (simp add: rn window_def [symmetric] dict_get_set_other dict_get_set_same)
  next
    case False
    with base' out show ?thesis
      by (simp add: rn window_def [symmetric])
  qed
qed


lemma follow_list_notebooks:
  assumes "1 \<le> limit" and "0 \<le> offset"
  shows "follow_next_offset (Suc (length listed)) (list_notebooks_from path limit listed)
           (K ''items'') offset = Some (drop (nat offset) (map notebook_entry listed))"
proof -
  have page: "\<exists>r. list_notebooks_from path limit listed off = Some r \<and>
      dict_get r (K ''items'') =
        Some (VList (take (nat limit) (drop (nat off) (map notebook_entry listed)))) \<and>
      dict_get r (K ''next_offset'') =
        (if off + int (length (take (nat limit) (drop (nat off) (map notebook_entry listed))))
            < int (length (map notebook_entry listed))
         then Some (VInt (off + int (length (take (nat limit)
                 (drop (nat off) (map notebook_entry listed))))))
         else None)"
    if "0 \<le> off" for off
  proof -
    from that assms(1)
    have "py_slice (map notebook_entry listed) (Some off) (Some (off + limit)) =
        take (nat limit) (drop (nat off) (map notebook_entry listed))"
      by (intro py_slice_window) simp_all
    then show ?thesis
      using list_notebooks_result [of path limit off listed]
      by (auto simp: list_notebooks_from_def)
  qed
  have "length (map notebook_entry listed) - nat offset < Suc (length listed)" by simp
  with follow_windows [of limit "list_notebooks_from path limit listed" "K ''items''"
      "map notebook_entry listed" offset "Suc (length listed)", OF assms(1) page assms(2)]
  show ?thesis by blast
qed

lemma follow_read_notebook:
  assumes "notebooks ws p = Some source" and "1 \<le> limit" and "0 \<le> offset"
  shows "follow_next_offset (Suc (length (parse_notebook_cells source)))
           (read_notebook_from ws p (Some limit)) (K ''cells'') offset =
         Some (drop (nat offset) (map VStr (map shown_cell (parse_notebook_cells source))))"
proof -
  let ?xs = "map VStr (map shown_cell (parse_notebook_cells source))"
  have page: "\<exists>r. read_notebook_from ws p (Some limit) off = Some r \<and>
      dict_get r (K ''cells'') = Some (VList (take (nat limit) (drop (nat off) ?xs))) \<and>
      dict_get r (K ''next_offset'') =
        (if off + int (length (take (nat limit) (drop (nat off) ?xs))) < int (length ?xs)
         then Some (VInt (off + int (length (take (nat limit) (drop (nat off) ?xs)))))
         else None)"
    if "0 \<le> off" for off
  proof -
    from that assms(2)
    have "py_slice (parse_notebook_cells source) (Some off) (Some (off + limit)) =
        take (nat limit) (drop (nat off) (parse_notebook_cells source))"
      by (intro py_slice_window) simp_all
    then show ?thesis
      using read_notebook_result [OF assms(1), of off "Some limit"]
      by (auto simp: read_notebook_from_def result_of_def take_map drop_map)
  qed
  have "length ?xs - nat offset < Suc (length (parse_notebook_cells source))" by simp
  with follow_windows [of limit "read_notebook_from ws p (Some limit)" "K ''cells''" ?xs offset
      "Suc (length (parse_notebook_cells source))", OF assms(2) page assms(3)]
  show ?thesis by blast
qed

lemma follow_read_notebook_unlimited:
  assumes "notebooks ws p = Some source" and "0 \<le> offset"
  shows "follow_next_offset 1 (read_notebook_from ws p None) (K ''cells'') offset =
         Some (drop (nat offset) (map VStr (map shown_cell (parse_notebook_cells source))))"
proof -
  from assms(2) have "py_slice (parse_notebook_cells source) (Some offset) None =
      drop (nat offset) (parse_notebook_cells source)"
    by (rule py_slice_from)
  then show ?thesis
    using read_notebook_result [OF assms(1), of offset None] assms(2)
    by (auto simp: read_notebook_from_def result_of_def drop_map)
qed

lemma zero_limit_page:
  "list_notebooks (lit ''/d'') (Some 0) (Some 0) [example_object] =
     [(K ''path'', K ''/d''), (K ''items'', VList []), (K ''total_count'', VInt 1),
      (K ''returned_count'', VInt 0), (K ''offset'', VInt 0), (K ''has_more'', VBool True),
      (K ''next_offset'', VInt 0)]"
  by (simp add: list_notebooks_def py_slice_def clamp_index_def Let_def lit_def)

lemma zero_limit_never_ends:
  "follow_next_offset calls (list_notebooks_from (lit ''/d'') 0 [example_object]) (K ''items'') 0 =
     None"
proof (induction calls)
  case 0
  then show ?case by simp
next
  case (Suc calls)
  have "dict_get (list_notebooks (lit ''/d'') (Some 0) (Some 0) [example_object]) (K ''items'') =
      Some (VList [])"
    and "dict_get (list_notebooks (lit ''/d'') (Some 0) (Some 0) [example_object])
      (K ''next_offset'') = Some (VInt 0)"
    unfolding zero_limit_page by (simp_all add: lit_def)
  with Suc show ?case by (simp add: list_notebooks_from_def)
qed

text \<open>
  C4, as the code has it. Every result of \<open>list_notebooks\<close> and of \<open>read_notebook\<close> carries
  \<open>has_more\<close> (as \<open>True\<close>) exactly when the offset plus the number of returned items is below
  the total count, and \<open>next_offset\<close> exactly then, equal to the offset plus the number of
  returned items. For a limit of at least 1 and an offset that is not negative, following
  \<open>next_offset\<close> from call to call ends after at most as many calls as there are items plus
  one, and the returned items, concatenated, are the underlying sequence from the offset on
  (all of it from offset 0), in order and each once; \<open>read_notebook\<close> returns each cell as it
  shows it, cut to \<open>MAX_CELL_CONTENT\<close> characters when longer, and without a \<open>cell_limit\<close> a
  single call returns them all.
\<close>

theorem page_window_invariant:
  "(\<exists>items.
      dict_get (list_notebooks path (Some limit) (Some offset) listed) (K ''items'') =
        Some (VList items) \<and>
      dict_get (list_notebooks path (Some limit) (Some offset) listed) (K ''total_count'') =
        Some (VInt (int (length listed))) \<and>
      dict_get (list_notebooks path (Some limit) (Some offset) listed) (K ''has_more'') =
        (if offset + int (length items) < int (length listed) then Some (VBool True) else None) \<and>
      dict_get (list_notebooks path (Some limit) (Some offset) listed) (K ''next_offset'') =
        (if offset + int (length items) < int (length listed)
         then Some (VInt (offset + int (length items))) else None)) \<and>
   (notebooks ws p = Some source \<longrightarrow>
      (\<exists>r cells.
         read_notebook ws p (Some offset) cell_limit = Inr r \<and>
         dict_get r (K ''cells'') = Some (VList cells) \<and>
         dict_get r (K ''total_cells'') =
           Some (VInt (int (length (parse_notebook_cells source)))) \<and>
         dict_get r (K ''has_more'') =
           (if offset + int (length cells) < int (length (parse_notebook_cells source))
            then Some (VBool True) else None) \<and>
         dict_get r (K ''next_offset'') =
           (if offset + int (length cells) < int (length (parse_notebook_cells source))
            then Some (VInt (offset + int (length cells))) else None))) \<and>
   (1 \<le> limit \<and> 0 \<le> offset \<longrightarrow>
      follow_next_offset (Suc (length listed)) (list_notebooks_from path limit listed)
        (K ''items'') offset = Some (drop (nat offset) (map notebook_entry listed))) \<and>
   (notebooks ws p = Some source \<and> 1 \<le> limit \<and> 0 \<le> offset \<longrightarrow>
      follow_next_offset (Suc (length (parse_notebook_cells source)))
        (read_notebook_from ws p (Some limit)) (K ''cells'') offset =
      Some (drop (nat offset) (map VStr (map shown_cell (parse_notebook_cells source))))) \<and>
   (notebooks ws p = Some source \<and> 0 \<le> offset \<longrightarrow>
      follow_next_offset 1 (read_notebook_from ws p None) (K ''cells'') offset =
      Some (drop (nat offset) (map VStr (map shown_cell (parse_notebook_cells source)))))"
proof (intro conjI impI)
  show "\<exists>items.
      dict_get (list_notebooks path (Some limit) (Some offset) listed) (K ''items'') =
        Some (VList items) \<and>
      dict_get (list_notebooks path (Some limit) (Some offset) listed) (K ''total_count'') =
        Some (VInt (int (length listed))) \<and>
      dict_get (list_notebooks path (Some limit) (Some offset) listed) (K ''has_more'') =
        (if offset + int (length items) < int (length listed) then Some (VBool True) else None) \<and>
      dict_get (list_notebooks path (Some limit) (Some offset) listed) (K ''next_offset'') =
        (if offset + int (length items) < int (length listed)
         then Some (VInt (offset + int (length items))) else None)"
    using list_notebooks_result [of path limit offset listed] by blast
next
  assume "notebooks ws p = Some source"
  from read_notebook_result [OF this, of offset cell_limit]
  obtain r window where r: "read_notebook ws p (Some offset) cell_limit = Inr r"
    "dict_get r (K ''cells'') = Some (VList (map VStr (map shown_cell window)))"
    "dict_get r (K ''total_cells'') = Some (VInt (int (length (parse_notebook_cells source))))"
    "dict_get r (K ''has_more'') =
       (if offset + int (length window) < int (length (parse_notebook_cells source))
        then Some (VBool True) else None)"
    "dict_get r (K ''next_offset'') =
       (if offset + int (length window) < int (length (parse_notebook_cells source))
        then Some (VInt (offset + int (length window))) else None)"
    by blast
  have "length (map VStr (map shown_cell window)) = length window" by simp
  with r show "\<exists>r cells.
         read_notebook ws p (Some offset) cell_limit = Inr r \<and>
         dict_get r (K ''cells'') = Some (VList cells) \<and>
         dict_get r (K ''total_cells'') =
           Some (VInt (int (length (parse_notebook_cells source)))) \<and>
         dict_get r (K ''has_more'') =
           (if offset + int (length cells) < int (length (parse_notebook_cells source))
            then Some (VBool True) else None) \<and>
         dict_get r (K ''next_offset'') =
           (if offset + int (length cells) < int (length (parse_notebook_cells source))
            then Some (VInt (offset + int (length cells))) else None)"
    by metis
next
  assume "1 \<le> limit \<and> 0 \<le> offset"
  then have "1 \<le> limit" and "0 \<le> offset" by simp_all
  then show "follow_next_offset (Suc (length listed)) (list_notebooks_from path limit listed)
        (K ''items'') offset = Some (drop (nat offset) (map notebook_entry listed))"
    by (rule follow_list_notebooks)
next
  assume "notebooks ws p = Some source \<and> 1 \<le> limit \<and> 0 \<le> offset"
  then have "notebooks ws p = Some source" and "1 \<le> limit" and "0 \<le> offset" by simp_all
  then show "follow_next_offset (Suc (length (parse_notebook_cells source)))
        (read_notebook_from ws p (Some limit)) (K ''cells'') offset =
      Some (drop (nat offset) (map VStr (map shown_cell (parse_notebook_cells source))))"
    by (rule follow_read_notebook)
next
  assume "notebooks ws p = Some source \<and> 0 \<le> offset"
  then have "notebooks ws p = Some source" and "0 \<le> offset" by simp_all
  then show "follow_next_offset 1 (read_notebook_from ws p None) (K ''cells'') offset =
      Some (drop (nat offset) (map VStr (map shown_cell (parse_notebook_cells source))))"
    by (rule follow_read_notebook_unlimited)
qed

theorem page_window_invariant_witness:
  "notebooks scenario_workspace (lit ''/nb'') = Some scenario_source \<and> (1::int) \<le> 2 \<and>
   (0::int) \<le> 0 \<and>
   follow_next_offset 3 (list_notebooks_from (lit ''/d'') 2 [example_object, example_object])
     (K ''items'') 0 = Some [notebook_entry example_object, notebook_entry example_object] \<and>
   follow_next_offset 4 (read_notebook_from scenario_workspace (lit ''/nb'') (Some 2))
     (K ''cells'') 0 = Some [K ''a'', K ''b'', K ''c''] \<and>
   follow_next_offset 1 (read_notebook_from scenario_workspace (lit ''/nb'') None)
     (K ''cells'') 0 = Some [K ''a'', K ''b'', K ''c'']"
proof -
  have shown: "map VStr (map shown_cell [lit ''a'', lit ''b'', lit ''c'']) =
      [K ''a'', K ''b'', K ''c'']"
    by (simp add: shown_cell_def MAX_CELL_CONTENT_def lit_def)
  have n: "Suc (length [example_object, example_object]) = 3"
    "Suc (length [lit ''a'', lit ''b'', lit ''c'']) = 4"
    by simp_all
  from page_window_invariant [of "lit ''/d''" 2 0 "[example_object, example_object]"
      scenario_workspace "lit ''/nb''" scenario_source None]
  have "follow_next_offset (Suc (length [example_object, example_object]))
      (list_notebooks_from (lit ''/d'') 2 [example_object, example_object]) (K ''items'') 0 =
      Some (drop (nat 0) (map notebook_entry [example_object, example_object]))"
    and "follow_next_offset (Suc (length (parse_notebook_cells scenario_source)))
      (read_notebook_from scenario_workspace (lit ''/nb'') (Some 2)) (K ''cells'') 0 =
      Some (drop (nat 0) (map VStr (map shown_cell (parse_notebook_cells scenario_source))))"
    and "follow_next_offset 1 (read_notebook_from scenario_workspace (lit ''/nb'') None)
      (K ''cells'') 0 =
      Some (drop (nat 0) (map VStr (map shown_cell (parse_notebook_cells scenario_source))))"
    using scenario_notebook by simp_all
  then show ?thesis
    unfolding scenario_cells n shown
    by (simp add: scenario_notebook shown del: follow_next_offset.simps)
qed

theorem page_window_counterexample:
  "list_notebooks (lit ''/d'') (Some 0) (Some 0) [example_object] =
     [(K ''path'', K ''/d''), (K ''items'', VList []), (K ''total_count'', VInt 1),
      (K ''returned_count'', VInt 0), (K ''offset'', VInt 0), (K ''has_more'', VBool True),
      (K ''next_offset'', VInt 0)] \<and>
   follow_next_offset 5 (list_notebooks_from (lit ''/d'') 0 [example_object]) (K ''items'') 0 =
     None"
  using zero_limit_page zero_limit_never_ends [of 5] by simp

subsection \<open>Waiting for a run\<close>

lemma wait_loop_never_terminal:
  "never_terminal client \<Longrightarrow>
   wait_loop client run_id timeout_minutes max_iterations iteration polls =
     (Inr (timeout_result run_id timeout_minutes), polls + nat (max_iterations - iteration))"
proof (induction client run_id timeout_minutes max_iterations iteration polls
    rule: wait_loop.induct)
  case (1 client run_id timeout_minutes max_iterations iteration polls)
  show ?case
  proof (cases "iteration < max_iterations")
    case False
    then show ?thesis by (simp add: wait_loop.simps)
  next
    case True
    from "1.prems" obtain r where r: "get_run client polls = Inr r" "\<not> is_terminal r"
      unfolding never_terminal_def by blast
    with True have "wait_loop client run_id timeout_minutes max_iterations iteration polls =
        wait_loop client run_id timeout_minutes max_iterations (iteration + 1) (Suc polls)"
      by (subst wait_loop.simps) simp
    also have "\<dots> = (Inr (timeout_result run_id timeout_minutes),
        Suc polls + nat (max_iterations - (iteration + 1)))"
      using True r "1.prems" by (rule "1.IH")
    also from True have "Suc polls + nat (max_iterations - (iteration + 1)) =
        polls + nat (max_iterations - iteration)"
      by simp
    finally show ?thesis .
  qed
qed

lemma dict_keys_Nil: "dict_keys [] = []"
  by (simp add: dict_keys_def)

lemma dict_keys_Cons: "dict_keys ((k, v) # d) = k # dict_keys d"
  by (simp add: dict_keys_def)

lemma dict_get_None_iff: "dict_get d k = None \<longleftrightarrow> k \<notin> set (dict_keys d)"
  by (induction d k rule: dict_get.induct) (auto simp: dict_keys_Nil dict_keys_Cons)

lemma dict_keys_set: "set (dict_keys (dict_set d k v)) = insert k (set (dict_keys d))"
  by (induction d k v rule: dict_set.induct) (auto simp: dict_keys_Nil dict_keys_Cons)

lemma dict_keys_update:
  "set (dict_keys (dict_update d m)) = set (dict_keys d) \<union> set (dict_keys m)"
proof (induction m arbitrary: d)
  case Nil
  then show ?case by (simp add: dict_update_def dict_keys_Nil)
next
  case (Cons kv m)
  obtain k v where kv: "kv = (k, v)" by (cases kv)
  have "dict_update d (kv # m) = dict_update (dict_set d k v) m"
    by (simp add: dict_update_def kv)
  then have "set (dict_keys (dict_update d (kv # m))) =
      set (dict_keys (dict_set d k v)) \<union> set (dict_keys m)"
    by (simp only: Cons.IH)
  then show ?case
    by (simp add: dict_keys_set kv dict_keys_Cons)
qed

lemma dict_keys_display: "set (dict_keys (dict_display m)) = set (dict_keys m)"
  by (simp add: dict_display_def dict_keys_update dict_keys_Nil)

lemma truncate_text_keys:
  "set (dict_keys (snd (truncate_text text b name))) \<subseteq>
     {VStr (name @ lit ''_truncated''), VStr (name @ lit ''_total_size''),
      VStr (name @ lit ''_shown_size'')}"
proof (cases "text = [] \<or> int (length text) \<le> b")
  case True
  then show ?thesis by (auto simp: truncate_text_def dict_keys_Nil)
next
  case False
  then have "snd (truncate_text text b name) = dict_display
      [(VStr (name @ lit ''_truncated''), VBool True),
       (VStr (name @ lit ''_total_size''), VInt (int (length text))),
       (VStr (name @ lit ''_shown_size''), VInt b)]"
    by (simp add: truncate_text_def Let_def)
  then have "set (dict_keys (snd (truncate_text text b name))) = set (dict_keys
      [(VStr (name @ lit ''_truncated''), VBool True),
       (VStr (name @ lit ''_total_size''), VInt (int (length text))),
       (VStr (name @ lit ''_shown_size''), VInt b)])"
    by (simp only: dict_keys_display)
  then show ?thesis
    by (simp add: dict_keys_Cons dict_keys_Nil)
qed

lemma status_not_truncation_key:
  "K ''status'' \<notin> {VStr (name @ lit ''_truncated''), VStr (name @ lit ''_total_size''),
      VStr (name @ lit ''_shown_size'')}"
proof -
  have "last (lit ''status'') = 115" by (simp add: lit_def)
  moreover have "last (name @ lit ''_truncated'') = 100" "last (name @ lit ''_total_size'') = 101"
    "last (name @ lit ''_shown_size'') = 101"
    by (simp_all add: lit_def)
  ultimately show ?thesis by auto
qed

lemma truncate_text_no_status:
  "K ''status'' \<notin> set (dict_keys (snd (truncate_text text b name)))"
  using truncate_text_keys [of "text" b name] status_not_truncation_key [of name] by blast

lemma run_fields_no_status:
  "run_fields run_id r = Inr result \<Longrightarrow> K ''status'' \<notin> set (dict_keys result)"
  by (auto simp: run_fields_def dict_keys_Cons dict_keys_Nil lit_def split: option.splits)

lemma add_notebook_output_no_status:
  assumes "K ''status'' \<notin> set (dict_keys result)"
  shows "K ''status'' \<notin> set (dict_keys (add_notebook_output output result))"
proof -
  have k: "K ''status'' \<noteq> K ''notebook_output''" by (simp add: lit_def)
  show ?thesis
  proof (cases "output_notebook output")
    case None
    with assms show ?thesis by (simp add: add_notebook_output_def)
  next
    case (Some nb)
    show ?thesis
    proof (cases "nb_result nb")
      case None
      with Some assms k show ?thesis by (simp add: add_notebook_output_def dict_keys_set)
    next
      case res: (Some res)
      obtain res' meta where t:
        "truncate_text res MAX_TEXT_SIZE (lit ''notebook_result'') = (res', meta)"
        by (cases "truncate_text res MAX_TEXT_SIZE (lit ''notebook_result'')")
      then have "K ''status'' \<notin> set (dict_keys meta)"
        using truncate_text_no_status [of res MAX_TEXT_SIZE "lit ''notebook_result''"] by simp
      with Some res t assms k show ?thesis
        by (simp add: add_notebook_output_def dict_keys_set dict_keys_update)
    qed
  qed
qed

lemma add_error_no_status:
  assumes "K ''status'' \<notin> set (dict_keys result)"
  shows "K ''status'' \<notin> set (dict_keys (add_error output result))"
proof -
  have "K ''status'' \<noteq> K ''error''" by (simp add: lit_def)
  with assms show ?thesis
    by (simp add: add_error_def dict_keys_set split: option.splits)
qed

lemma add_error_trace_no_status:
  assumes "K ''status'' \<notin> set (dict_keys result)"
  shows "K ''status'' \<notin> set (dict_keys (add_error_trace output result))"
proof (cases "output_error_trace output")
  case None
  with assms show ?thesis by (simp add: add_error_trace_def)
next
  case (Some t)
  have k: "K ''status'' \<noteq> K ''error_trace''" by (simp add: lit_def)
  obtain t' meta where tr: "truncate_text t MAX_TEXT_SIZE (lit ''error_trace'') = (t', meta)"
    by (cases "truncate_text t MAX_TEXT_SIZE (lit ''error_trace'')")
  then have "K ''status'' \<notin> set (dict_keys meta)"
    using truncate_text_no_status [of t MAX_TEXT_SIZE "lit ''error_trace''"] by simp
  with Some tr assms k show ?thesis
    by (simp add: add_error_trace_def dict_keys_set dict_keys_update)
qed

lemma add_logs_no_status:
  assumes "K ''status'' \<notin> set (dict_keys result)"
  shows "K ''status'' \<notin> set (dict_keys (add_logs output result))"
proof (cases "output_logs output")
  case None
  with assms show ?thesis by (simp add: add_logs_def)
next
  case (Some l)
  have k: "K ''status'' \<noteq> K ''logs''" by (simp add: lit_def)
  obtain l' meta where tr: "truncate_text l MAX_LOG_SIZE (lit ''logs'') = (l', meta)"
    by (cases "truncate_text l MAX_LOG_SIZE (lit ''logs'')")
  then have "K ''status'' \<notin> set (dict_keys meta)"
    using truncate_text_no_status [of l MAX_LOG_SIZE "lit ''logs''"] by simp
  with Some tr assms k show ?thesis
    by (simp add: add_logs_def dict_keys_set dict_keys_update)
qed

lemma get_run_output_no_status:
  assumes "get_run_output client calls run_id = Inr d"
  shows "dict_get d (K ''status'') = None"
proof -
  from assms obtain r out result where
    "run_fields run_id r = Inr result"
    "d = add_logs out (add_error_trace out (add_error out (add_notebook_output out result)))"
    by (auto simp: get_run_output_def split: sum.splits)
  then show ?thesis
    by (simp add: dict_get_None_iff run_fields_no_status add_notebook_output_no_status
        add_error_no_status add_error_trace_no_status add_logs_no_status)
qed


lemma running_client_never_terminal: "never_terminal running_client"
  by (simp add: never_terminal_def running_client_def is_terminal_def)

text \<open>
  C5. If the upstream run never reports a terminal life-cycle state, and \<open>poll_interval\<close> is not
  zero (so that the quotient exists), \<open>wait_for_run\<close> polls the run status
  \<open>(timeout_minutes * 60) div poll_interval\<close> times, the quotient rounded down (no poll at all
  when it is negative), and then returns, without raising, the result with status \<open>TIMEOUT\<close>;
  for one minute and ten seconds these are 6 polls. No result of \<open>get_run_output\<close>, which
  reports the runs that ended in success or failure, has a \<open>status\<close> entry.
\<close>

theorem wait_for_run_timeout:
  assumes "never_terminal client" and "poll_interval \<noteq> 0"
  shows "wait_for_run client run_id (Some timeout_minutes) (Some poll_interval) =
           (Inr (timeout_result run_id timeout_minutes),
            nat ((timeout_minutes * 60) div poll_interval)) \<and>
         (0 \<le> (timeout_minutes * 60) div poll_interval \<longrightarrow>
            int (snd (wait_for_run client run_id (Some timeout_minutes) (Some poll_interval))) =
              (timeout_minutes * 60) div poll_interval) \<and>
         dict_get (timeout_result run_id timeout_minutes) (K ''status'') = Some (K ''TIMEOUT'') \<and>
         (\<forall>other calls d. get_run_output other calls run_id = Inr d \<longrightarrow>
            dict_get d (K ''status'') = None)"
proof -
  have "wait_for_run client run_id (Some timeout_minutes) (Some poll_interval) =
      (Inr (timeout_result run_id timeout_minutes),
       nat ((timeout_minutes * 60) div poll_interval))"
    using assms by (simp add: wait_for_run_def wait_loop_never_terminal)
  moreover have "dict_get (timeout_result run_id timeout_minutes) (K ''status'') =
      Some (K ''TIMEOUT'')"
    by (simp add: timeout_result_def lit_def)
  ultimately show ?thesis
    by (simp add: get_run_output_no_status)
qed

theorem wait_for_run_timeout_witness:
  "never_terminal running_client \<and> (10::int) \<noteq> 0 \<and>
   wait_for_run running_client 7 (Some 1) (Some 10) =
     (Inr [(K ''run_id'', VInt 7), (K ''status'', K ''TIMEOUT''),
           (K ''message'', K ''Run did not complete within 1 minutes'')], 6)"
proof -
  have "timeout_result 7 1 =
      [(K ''run_id'', VInt 7), (K ''status'', K ''TIMEOUT''),
       (K ''message'', K ''Run did not complete within 1 minutes'')]"
    by (simp add: timeout_result_def str_int_def digits.simps lit_def)
  moreover have "nat ((1 * 60) div 10) = (6::nat)" by simp
  ultimately show ?thesis
    using wait_for_run_timeout [OF running_client_never_terminal, of 10 7 1]
    by (simp add: running_client_never_terminal)
qed

subsection \<open>Fetching the content of a page\<close>

lemma all_traced_send: "all_traced api (send api req)"
  by (auto simp: all_traced_def send_def traced_def split: sum.splits)

lemma all_traced_returning: "all_traced api (returning x)"
  by (simp add: all_traced_def returning_def traced_def)

lemma all_traced_then:
  assumes "all_traced api m" and "\<And>x. all_traced api (f x)"
  shows "all_traced api (then_fetch m f)"
  unfolding all_traced_def
proof (intro allI impI)
  fix sent r
  assume res: "then_fetch m f = Some (sent, r)"
  then obtain s1 r1 where m: "m = Some (s1, r1)"
    by (cases m) (auto simp: then_fetch_def)
  with assms(1) have t1: "traced api s1 r1" by (simp add: all_traced_def)
  show "traced api sent r"
  proof (cases r1)
    case (Inl e)
    with res m have "sent = s1" "r = Inl e" by (simp_all add: then_fetch_def)
    with t1 Inl show ?thesis by (simp add: traced_def)
  next
    case (Inr x)
    with res m obtain s2 where f: "f x = Some (s2, r)" and sent: "sent = s1 @ s2"
      by (cases "f x") (auto simp: then_fetch_def)
    from assms(2) [of x] f have t2: "traced api s2 r" by (simp add: all_traced_def)
    from t1 Inr have c1: "\<forall>q\<in>set s1. \<not> isl (api q)" by (simp add: traced_def)
    show ?thesis
    proof (cases r)
      case Inr
      with t2 c1 sent show ?thesis by (auto simp: traced_def)
    next
      case (Inl e)
      with t2 have "s2 \<noteq> []" "api (last s2) = Inl e" "\<forall>q\<in>set (butlast s2). \<not> isl (api q)"
        by (simp_all add: traced_def)
      with c1 sent Inl show ?thesis
        by (auto simp: traced_def butlast_append)
    qed
  qed
qed

lemma all_traced_None: "all_traced api None"
  by (simp add: all_traced_def)

lemma all_traced_fetch:
  "all_traced api (fetch_blocks n api format_block fetch_all page_size block_id start_cursor)"
  "all_traced api (fetch_results n api format_block fetch_all page_size blocks)"
proof (induction n api format_block fetch_all page_size block_id start_cursor
    and n api format_block fetch_all page_size blocks rule: fetch_blocks_fetch_results.induct)
  case (1 api format_block fetch_all page_size block_id start_cursor)
  then show ?case by (simp add: all_traced_None)
next
  case (2 n api format_block fetch_all page_size block_id start_cursor)
  have a: "all_traced api (fetch_results n api format_block fetch_all page_size (resp_results data))"
    for data :: children_response by (rule "2.IH"(1))
  have b: "all_traced api
      (fetch_blocks n api format_block fetch_all page_size block_id (Some (resp_next_cursor data)))"
    if "\<not> (\<not> fetch_all \<or> \<not> resp_has_more data)" for data :: children_response
    using that by (rule "2.IH"(2))
  have c: "all_traced api
      (if \<not> fetch_all \<or> \<not> resp_has_more data then returning blocks
       else then_fetch
              (fetch_blocks n api format_block fetch_all page_size block_id
                 (Some (resp_next_cursor data)))
              (\<lambda>more. returning (blocks @ more)))"
    for data :: children_response and blocks
  proof (cases "\<not> fetch_all \<or> \<not> resp_has_more data")
    case True
    show ?thesis by (subst if_P [OF True]) (rule all_traced_returning)
  next
    case False
    show ?thesis
      by (subst if_not_P [OF False]) (intro all_traced_then b [OF False] all_traced_returning)
  qed
  show ?case
    unfolding fetch_blocks.simps
    by (intro all_traced_then all_traced_send a c)
next
  case (3 n api format_block fetch_all page_size)
  then show ?case by (simp add: all_traced_returning)
next
  case (4 n api format_block fetch_all page_size block rest)
  have a: "all_traced api
      (fetch_blocks n api format_block fetch_all page_size (rb_id block) None)"
    if "fetch_all \<and> rb_has_children block"
    using that by (rule "4.IH"(1))
  have b: "all_traced api (fetch_results n api format_block fetch_all page_size rest)"
    by (rule "4.IH"(2))
  have c: "all_traced api
      (if fetch_all \<and> rb_has_children block then
         then_fetch (fetch_blocks n api format_block fetch_all page_size (rb_id block) None)
           (\<lambda>children.
              returning (dict_set (format_block block) (K ''children'') (VList children)))
       else returning (format_block block))"
  proof (cases "fetch_all \<and> rb_has_children block")
    case True
    show ?thesis
      by (subst if_P [OF True]) (intro all_traced_then a [OF True] all_traced_returning)
  next
    case False
    show ?thesis by (subst if_not_P [OF False]) (rule all_traced_returning)
  qed
  show ?case
    unfolding fetch_results.simps
    by (intro all_traced_then c b all_traced_returning)
qed

lemma all_traced_get_page_content:
  "all_traced api
     (get_page_content n api format_block page_id fetch_all page_size start_cursor)"
  unfolding get_page_content_def Let_def
  by (cases "case fetch_all of Some b \<Rightarrow> b | None \<Rightarrow> True")
    (simp_all add: all_traced_then all_traced_fetch all_traced_returning all_traced_send)

lemma then_fetch_mono:
  assumes "then_fetch m f = Some z"
    and "\<And>y. m = Some y \<Longrightarrow> m' = Some y"
    and "\<And>x y. f x = Some y \<Longrightarrow> f' x = Some y"
  shows "then_fetch m' f' = Some z"
proof -
  from assms(1) obtain sent r where m: "m = Some (sent, r)"
    by (cases m) (auto simp: then_fetch_def)
  then have m': "m' = Some (sent, r)" by (rule assms(2))
  show ?thesis
  proof (cases r)
    case (Inl e)
    with assms(1) m m' show ?thesis by (simp add: then_fetch_def)
  next
    case (Inr x)
    with assms(1) m obtain y where y: "f x = Some y"
      by (cases "f x") (auto simp: then_fetch_def)
    then have "f' x = Some y" by (rule assms(3))
    with assms(1) m m' Inr y show ?thesis by (simp add: then_fetch_def)
  qed
qed

lemma fetch_mono:
  "fetch_blocks n api format_block fetch_all page_size block_id start_cursor = Some z \<Longrightarrow>
   fetch_blocks (Suc n) api format_block fetch_all page_size block_id start_cursor = Some z"
  "fetch_results n api format_block fetch_all page_size blocks = Some zs \<Longrightarrow>
   fetch_results (Suc n) api format_block fetch_all page_size blocks = Some zs"
proof (induction n api format_block fetch_all page_size block_id start_cursor
    and n api format_block fetch_all page_size blocks arbitrary: z and zs
    rule: fetch_blocks_fetch_results.induct)
  case (1 api format_block fetch_all page_size block_id start_cursor)
  then show ?case by simp
next
  case (2 n api format_block fetch_all page_size block_id start_cursor)
  have inner: "(if \<not> fetch_all \<or> \<not> resp_has_more data then returning blocks
       else then_fetch
              (fetch_blocks (Suc n) api format_block fetch_all page_size block_id
                 (Some (resp_next_cursor data)))
              (\<lambda>more. returning (blocks @ more))) = Some y"
    if "(if \<not> fetch_all \<or> \<not> resp_has_more data then returning blocks
       else then_fetch
              (fetch_blocks n api format_block fetch_all page_size block_id
                 (Some (resp_next_cursor data)))
              (\<lambda>more. returning (blocks @ more))) = Some y"
    for data :: children_response and blocks y
  proof (cases "\<not> fetch_all \<or> \<not> resp_has_more data")
    case True
    with that show ?thesis by (simp only: if_P if_True)
  next
    case False
    from that have "then_fetch
        (fetch_blocks n api format_block fetch_all page_size block_id
           (Some (resp_next_cursor data)))
        (\<lambda>more. returning (blocks @ more)) = Some y"
      by (simp only: if_not_P [OF False])
    then have "then_fetch
        (fetch_blocks (Suc n) api format_block fetch_all page_size block_id
           (Some (resp_next_cursor data)))
        (\<lambda>more. returning (blocks @ more)) = Some y"
      by (rule then_fetch_mono) (rule "2.IH"(2) [OF False], assumption+)
    then show ?thesis by (simp only: if_not_P [OF False])
  qed
  from "2.prems" have pre: "then_fetch (send api (block_id, page_size, start_cursor)) (\<lambda>data.
     then_fetch (fetch_results n api format_block fetch_all page_size (resp_results data))
       (\<lambda>blocks.
          if \<not> fetch_all \<or> \<not> resp_has_more data then returning blocks
          else
            then_fetch
              (fetch_blocks n api format_block fetch_all page_size block_id
                 (Some (resp_next_cursor data)))
              (\<lambda>more. returning (blocks @ more)))) = Some z"
    by (simp only: fetch_blocks.simps)
  from pre have "then_fetch (send api (block_id, page_size, start_cursor)) (\<lambda>data.
     then_fetch (fetch_results (Suc n) api format_block fetch_all page_size (resp_results data))
       (\<lambda>blocks.
          if \<not> fetch_all \<or> \<not> resp_has_more data then returning blocks
          else
            then_fetch
              (fetch_blocks (Suc n) api format_block fetch_all page_size block_id
                 (Some (resp_next_cursor data)))
              (\<lambda>more. returning (blocks @ more)))) = Some z"
  proof (rule then_fetch_mono)
    fix data :: children_response and y
    assume "then_fetch (fetch_results n api format_block fetch_all page_size (resp_results data))
       (\<lambda>blocks.
          if \<not> fetch_all \<or> \<not> resp_has_more data then returning blocks
          else
            then_fetch
              (fetch_blocks n api format_block fetch_all page_size block_id
                 (Some (resp_next_cursor data)))
              (\<lambda>more. returning (blocks @ more))) = Some y"
    then show "then_fetch
       (fetch_results (Suc n) api format_block fetch_all page_size (resp_results data))
       (\<lambda>blocks.
          if \<not> fetch_all \<or> \<not> resp_has_more data then returning blocks
          else
            then_fetch
              (fetch_blocks (Suc n) api format_block fetch_all page_size block_id
                 (Some (resp_next_cursor data)))
              (\<lambda>more. returning (blocks @ more))) = Some y"
      by (rule then_fetch_mono) (rule "2.IH"(1), assumption, rule inner, assumption)
  qed
  then show ?case by (simp only: fetch_blocks.simps)
next
  case (3 n api format_block fetch_all page_size)
  then show ?case by simp
next
  case (4 n api format_block fetch_all page_size block rest)
  have first: "(if fetch_all \<and> rb_has_children block then
         then_fetch (fetch_blocks (Suc n) api format_block fetch_all page_size (rb_id block) None)
           (\<lambda>children.
              returning (dict_set (format_block block) (K ''children'') (VList children)))
       else returning (format_block block)) = Some y"
    if "(if fetch_all \<and> rb_has_children block then
         then_fetch (fetch_blocks n api format_block fetch_all page_size (rb_id block) None)
           (\<lambda>children.
              returning (dict_set (format_block block) (K ''children'') (VList children)))
       else returning (format_block block)) = Some y" for y
  proof (cases "fetch_all \<and> rb_has_children block")
    case True
    from that have "then_fetch
        (fetch_blocks n api format_block fetch_all page_size (rb_id block) None)
        (\<lambda>children.
           returning (dict_set (format_block block) (K ''children'') (VList children))) = Some y"
      by (simp only: if_P [OF True])
    then have "then_fetch
        (fetch_blocks (Suc n) api format_block fetch_all page_size (rb_id block) None)
        (\<lambda>children.
           returning (dict_set (format_block block) (K ''children'') (VList children))) = Some y"
      by (rule then_fetch_mono) (rule "4.IH"(1) [OF True], assumption+)
    then show ?thesis by (simp only: if_P [OF True])
  next
    case False
    with that show ?thesis by (simp only: if_not_P if_False)
  qed
  from "4.prems" have "then_fetch
       (if fetch_all \<and> rb_has_children block then
          then_fetch (fetch_blocks (Suc n) api format_block fetch_all page_size (rb_id block) None)
            (\<lambda>children.
               returning (dict_set (format_block block) (K ''children'') (VList children)))
        else returning (format_block block))
       (\<lambda>formatted.
          then_fetch (fetch_results (Suc n) api format_block fetch_all page_size rest)
            (\<lambda>blocks. returning (VDict formatted # blocks))) = Some zs"
    unfolding fetch_results.simps
  proof (rule then_fetch_mono)
    fix formatted y
    assume "then_fetch (fetch_results n api format_block fetch_all page_size rest)
        (\<lambda>blocks. returning (VDict formatted # blocks)) = Some y"
    then show "then_fetch (fetch_results (Suc n) api format_block fetch_all page_size rest)
        (\<lambda>blocks. returning (VDict formatted # blocks)) = Some y"
      by (rule then_fetch_mono) (rule "4.IH"(2), assumption+)
  qed (rule first)
  then show ?case by (simp only: fetch_results.simps)
qed

lemma get_page_content_mono:
  assumes "get_page_content n api format_block page_id fetch_all page_size start_cursor = Some z"
  shows "get_page_content (Suc n) api format_block page_id fetch_all page_size start_cursor =
           Some z"
proof (cases "case fetch_all of Some b \<Rightarrow> b | None \<Rightarrow> True")
  case True
  with assms have "then_fetch
      (fetch_blocks n api format_block True (min (case page_size of Some s \<Rightarrow> s | None \<Rightarrow> 100) 100)
         (filter (\<lambda>c. c \<noteq> 45) page_id) None)
      (\<lambda>blocks. returning [(K ''blocks'', VList blocks)]) = Some z"
    by (simp add: get_page_content_def Let_def)
  then have "then_fetch
      (fetch_blocks (Suc n) api format_block True
         (min (case page_size of Some s \<Rightarrow> s | None \<Rightarrow> 100) 100)
         (filter (\<lambda>c. c \<noteq> 45) page_id) None)
      (\<lambda>blocks. returning [(K ''blocks'', VList blocks)]) = Some z"
    by (rule then_fetch_mono) (rule fetch_mono(1), assumption+)
  with True show ?thesis
    by (simp add: get_page_content_def Let_def del: fetch_blocks.simps)
next
  case False
  with assms show ?thesis by (simp add: get_page_content_def Let_def)
qed

lemma get_page_content_single_page:
  "get_page_content n api format_block page_id (Some False) page_size start_cursor =
     Some ([(filter (\<lambda>c. c \<noteq> 45) page_id,
             min (case page_size of Some s \<Rightarrow> s | None \<Rightarrow> 100) 100, start_cursor)],
           (case api (filter (\<lambda>c. c \<noteq> 45) page_id,
                      min (case page_size of Some s \<Rightarrow> s | None \<Rightarrow> 100) 100, start_cursor) of
              Inl e \<Rightarrow> Inl e
            | Inr data \<Rightarrow>
                Inr [(K ''blocks'',
                        VList (map (\<lambda>block. VDict (format_block block)) (resp_results data))),
                     (K ''has_more'', VBool (resp_has_more data)),
                     (K ''next_cursor'', resp_next_cursor data)]))"
  by (simp add: get_page_content_def then_fetch_def send_def returning_def split: sum.splits)

lemma get_page_content_root_fails:
  assumes "fetch_all \<noteq> Some False"
    and "api (filter (\<lambda>c. c \<noteq> 45) page_id,
              min (case page_size of Some s \<Rightarrow> s | None \<Rightarrow> 100) 100, None) = Inl e"
  shows "get_page_content (Suc n) api format_block page_id fetch_all page_size start_cursor =
     Some ([(filter (\<lambda>c. c \<noteq> 45) page_id,
             min (case page_size of Some s \<Rightarrow> s | None \<Rightarrow> 100) 100, None)], Inl e)"
proof -
  from assms(1) have "(case fetch_all of Some b \<Rightarrow> b | None \<Rightarrow> True)"
    by (cases fetch_all) auto
  with assms(2) show ?thesis
    by (simp add: get_page_content_def then_fetch_def send_def Let_def)
qed

lemma scenario_traversal:
  "get_page_content 2 scenario_api scenario_format (lit ''root'') None None None =
     Some ([(lit ''root'', 100, None), (lit ''mid'', 100, None)],
           Inl (HTTPStatusError 502 (lit ''bad gateway'')))"
proof -
  have root: "scenario_api (lit ''root'', 100, None) =
      Inr \<lparr>resp_results =
             [\<lparr>rb_id = lit ''first'', rb_has_children = False, rb_json = VNone\<rparr>,
              \<lparr>rb_id = lit ''mid'', rb_has_children = True, rb_json = VNone\<rparr>],
           resp_has_more = False, resp_next_cursor = VNone\<rparr>"
    by (simp add: scenario_api_def)
  have mid: "scenario_api (lit ''mid'', 100, None) = Inl (HTTPStatusError 502 (lit ''bad gateway''))"
    by (simp add: scenario_api_def lit_def)
  have id: "filter (\<lambda>c. c \<noteq> 45) (lit ''root'') = lit ''root''"
    by (simp add: lit_def)
  have "fetch_blocks (Suc 0) scenario_api scenario_format True 100 (lit ''mid'') None =
      Some ([(lit ''mid'', 100, None)], Inl (HTTPStatusError 502 (lit ''bad gateway'')))"
    by (simp add: then_fetch_def send_def mid)
  then have "fetch_results (Suc 0) scenario_api scenario_format True 100
      [\<lparr>rb_id = lit ''first'', rb_has_children = False, rb_json = VNone\<rparr>,
       \<lparr>rb_id = lit ''mid'', rb_has_children = True, rb_json = VNone\<rparr>] =
      Some ([(lit ''mid'', 100, None)], Inl (HTTPStatusError 502 (lit ''bad gateway'')))"
    by (simp add: then_fetch_def returning_def del: fetch_blocks.simps)
  then have "fetch_blocks (Suc (Suc 0)) scenario_api scenario_format True 100 (lit ''root'') None =
      Some ([(lit ''root'', 100, None), (lit ''mid'', 100, None)],
            Inl (HTTPStatusError 502 (lit ''bad gateway'')))"
    by (simp add: then_fetch_def send_def root del: fetch_results.simps)
  then show ?thesis
    by (simp add: get_page_content_def id then_fetch_def numeral_2_eq_2
        del: fetch_blocks.simps)
qed


lemma failing_at_send: "failing_at q e (send api req) (send (api(q := Inl e)) req)"
  by (simp add: failing_at_def send_def)

lemma failing_at_returning: "failing_at q e (returning x) (returning x)"
  by (simp add: failing_at_def returning_def)

lemma failing_at_None: "failing_at q e None m'"
  by (simp add: failing_at_def)

lemma failing_at_then:
  assumes "failing_at q e m m'" and "\<And>x. failing_at q e (f x) (f' x)"
  shows "failing_at q e (then_fetch m f) (then_fetch m' f')"
  unfolding failing_at_def
proof (intro allI impI)
  fix sent r
  assume res: "then_fetch m f = Some (sent, r)"
  then obtain s1 r1 where m: "m = Some (s1, r1)"
    by (cases m) (auto simp: then_fetch_def)
  with assms(1) have m': "m' = Some (if q \<in> set s1
      then (takeWhile (\<lambda>x. x \<noteq> q) s1 @ [q], Inl e) else (s1, r1))"
    by (simp add: failing_at_def)
  show "then_fetch m' f' = Some (if q \<in> set sent
      then (takeWhile (\<lambda>x. x \<noteq> q) sent @ [q], Inl e) else (sent, r))"
  proof (cases r1)
    case (Inl e1)
    with res m have "sent = s1" "r = Inl e1" by (simp_all add: then_fetch_def)
    with m' Inl show ?thesis by (simp add: then_fetch_def)
  next
    case (Inr x)
    with res m obtain s2 where f: "f x = Some (s2, r)" and sent: "sent = s1 @ s2"
      by (cases "f x") (auto simp: then_fetch_def)
    from assms(2) [of x] f have f': "f' x = Some (if q \<in> set s2
        then (takeWhile (\<lambda>x. x \<noteq> q) s2 @ [q], Inl e) else (s2, r))"
      by (simp add: failing_at_def)
    show ?thesis
    proof (cases "q \<in> set s1")
      case True
      then have "takeWhile (\<lambda>x. x \<noteq> q) (s1 @ s2) = takeWhile (\<lambda>x. x \<noteq> q) s1"
        by (intro takeWhile_append1 [of q]) simp_all
      with True m' sent show ?thesis by (simp add: then_fetch_def)
    next
      case False
      then have "takeWhile (\<lambda>x. x \<noteq> q) (s1 @ s2) = s1 @ takeWhile (\<lambda>x. x \<noteq> q) s2"
        by (intro takeWhile_append2) auto
      with False m' Inr f' sent show ?thesis by (simp add: then_fetch_def)
    qed
  qed
qed

lemma failing_at_fetch:
  "failing_at q e (fetch_blocks n api format_block fetch_all page_size block_id start_cursor)
     (fetch_blocks n (api(q := Inl e)) format_block fetch_all page_size block_id start_cursor)"
  "failing_at q e (fetch_results n api format_block fetch_all page_size blocks)
     (fetch_results n (api(q := Inl e)) format_block fetch_all page_size blocks)"
proof (induction n api format_block fetch_all page_size block_id start_cursor
    and n api format_block fetch_all page_size blocks rule: fetch_blocks_fetch_results.induct)
  case (1 api format_block fetch_all page_size block_id start_cursor)
  then show ?case by (simp add: failing_at_None)
next
  case (2 n api format_block fetch_all page_size block_id start_cursor)
  have a: "failing_at q e
      (fetch_results n api format_block fetch_all page_size (resp_results data))
      (fetch_results n (api(q := Inl e)) format_block fetch_all page_size (resp_results data))"
    for data :: children_response by (rule "2.IH"(1))
  have c: "failing_at q e
      (if \<not> fetch_all \<or> \<not> resp_has_more data then returning blocks
       else then_fetch
              (fetch_blocks n api format_block fetch_all page_size block_id
                 (Some (resp_next_cursor data)))
              (\<lambda>more. returning (blocks @ more)))
      (if \<not> fetch_all \<or> \<not> resp_has_more data then returning blocks
       else then_fetch
              (fetch_blocks n (api(q := Inl e)) format_block fetch_all page_size block_id
                 (Some (resp_next_cursor data)))
              (\<lambda>more. returning (blocks @ more)))"
    for data :: children_response and blocks
  proof (cases "\<not> fetch_all \<or> \<not> resp_has_more data")
    case True
    show ?thesis by (simp only: if_P [OF True]) (rule failing_at_returning)
  next
    case False
    show ?thesis
      by (simp only: if_not_P [OF False])
        (intro failing_at_then "2.IH"(2) [OF False] failing_at_returning)
  qed
  show ?case
    unfolding fetch_blocks.simps
    by (intro failing_at_then failing_at_send a c)
next
  case (3 n api format_block fetch_all page_size)
  then show ?case by (simp add: failing_at_returning)
next
  case (4 n api format_block fetch_all page_size block rest)
  have c: "failing_at q e
      (if fetch_all \<and> rb_has_children block then
         then_fetch (fetch_blocks n api format_block fetch_all page_size (rb_id block) None)
           (\<lambda>children.
              returning (dict_set (format_block block) (K ''children'') (VList children)))
       else returning (format_block block))
      (if fetch_all \<and> rb_has_children block then
         then_fetch
           (fetch_blocks n (api(q := Inl e)) format_block fetch_all page_size (rb_id block) None)
           (\<lambda>children.
              returning (dict_set (format_block block) (K ''children'') (VList children)))
       else returning (format_block block))"
  proof (cases "fetch_all \<and> rb_has_children block")
    case True
    show ?thesis
      by (simp only: if_P [OF True])
        (intro failing_at_then "4.IH"(1) [OF True] failing_at_returning)
  next
    case False
    show ?thesis by (simp only: if_not_P [OF False]) (rule failing_at_returning)
  qed
  have b: "failing_at q e (fetch_results n api format_block fetch_all page_size rest)
      (fetch_results n (api(q := Inl e)) format_block fetch_all page_size rest)"
    by (rule "4.IH"(2))
  show ?case
    unfolding fetch_results.simps
    by (intro failing_at_then c b failing_at_returning)
qed

lemma failing_at_get_page_content:
  "failing_at q e
     (get_page_content n api format_block page_id fetch_all page_size start_cursor)
     (get_page_content n (api(q := Inl e)) format_block page_id fetch_all page_size start_cursor)"
  unfolding get_page_content_def Let_def
  by (cases "case fetch_all of Some b \<Rightarrow> b | None \<Rightarrow> True")
    (simp_all add: failing_at_then failing_at_fetch failing_at_returning failing_at_send)


lemma scenario_ok_traversal:
  "get_page_content 2 scenario_api_ok scenario_format (lit ''root'') None None None =
     Some ([(lit ''root'', 100, None), (lit ''mid'', 100, None)],
           Inr [(K ''blocks'',
                 VList [VDict [(K ''id'', K ''first'')],
                        VDict [(K ''id'', K ''mid''), (K ''children'', VList [])]])])"
proof -
  have root: "scenario_api_ok (lit ''root'', 100, None) =
      Inr \<lparr>resp_results =
             [\<lparr>rb_id = lit ''first'', rb_has_children = False, rb_json = VNone\<rparr>,
              \<lparr>rb_id = lit ''mid'', rb_has_children = True, rb_json = VNone\<rparr>],
           resp_has_more = False, resp_next_cursor = VNone\<rparr>"
    by (simp add: scenario_api_ok_def)
  have mid: "scenario_api_ok (lit ''mid'', 100, None) =
      Inr \<lparr>resp_results = [], resp_has_more = False, resp_next_cursor = VNone\<rparr>"
    by (simp add: scenario_api_ok_def lit_def)
  have id: "filter (\<lambda>c. c \<noteq> 45) (lit ''root'') = lit ''root''"
    by (simp add: lit_def)
  have keys: "lit ''id'' \<noteq> lit ''children''" by (simp add: lit_def)
  have "fetch_blocks (Suc 0) scenario_api_ok scenario_format True 100 (lit ''mid'') None =
      Some ([(lit ''mid'', 100, None)], Inr [])"
    by (simp add: then_fetch_def send_def returning_def mid)
  then have "fetch_results (Suc 0) scenario_api_ok scenario_format True 100
      [\<lparr>rb_id = lit ''first'', rb_has_children = False, rb_json = VNone\<rparr>,
       \<lparr>rb_id = lit ''mid'', rb_has_children = True, rb_json = VNone\<rparr>] =
      Some ([(lit ''mid'', 100, None)],
            Inr [VDict [(K ''id'', K ''first'')],
                 VDict [(K ''id'', K ''mid''), (K ''children'', VList [])]])"
    by (simp add: then_fetch_def returning_def scenario_format_def keys
        del: fetch_blocks.simps)
  then have "fetch_blocks (Suc (Suc 0)) scenario_api_ok scenario_format True 100 (lit ''root'')
      None =
      Some ([(lit ''root'', 100, None), (lit ''mid'', 100, None)],
            Inr [VDict [(K ''id'', K ''first'')],
                 VDict [(K ''id'', K ''mid''), (K ''children'', VList [])]])"
    by (simp add: then_fetch_def send_def returning_def root del: fetch_results.simps)
  then show ?thesis
    by (simp add: get_page_content_def id then_fetch_def returning_def numeral_2_eq_2
        del: fetch_blocks.simps)
qed

text \<open>
  C6. When \<open>get_page_content\<close> ends, its outcome agrees with the requests it sent: if any
  children-fetch failed, at the root or for a nested block after the levels above it were
  fetched, the call raises the upstream error of that fetch, which is the last request sent,
  and returns no blocks; \<open>call_tool\<close> then answers with the text of the error
  (\<^verbatim>\<open>Notion API Error\<close> with the status and the body for an HTTP error). Blocks are returned
  only when every fetch was answered. The error is produced: take any traversal that ends
  within a bound on its depth, with blocks or not, and any request it sent, at any level;
  against the upstream in which that request fails, the traversal ends within the same bound,
  raises that failure after the requests up to and including that one, and returns no
  blocks. With \<open>fetch_all = False\<close> one request is sent, for the page asked for, and the call
  fails exactly when that request does. A failure of the first request ends an eager
  traversal at once, and a traversal that ended within a bound on its depth ends with the
  same outcome within any larger one.
\<close>

theorem eager_traversal_failure:
  "(get_page_content n api format_block page_id fetch_all page_size start_cursor =
      Some (sent, r) \<longrightarrow>
      ((\<exists>q\<in>set sent. isl (api q)) \<longrightarrow> (\<exists>e. r = Inl e \<and> sent \<noteq> [] \<and> api (last sent) = Inl e)) \<and>
      (\<forall>result. r = Inr result \<longrightarrow> (\<forall>q\<in>set sent. \<not> isl (api q))) \<and>
      (\<forall>status_code error_body. r = Inl (HTTPStatusError status_code error_body) \<longrightarrow>
         call_tool_get_page_content dumps n api format_block page_id fetch_all page_size
           start_cursor =
         Some (lit ''Notion API Error '' @ str_int status_code @ lit '': '' @ error_body)) \<and>
      get_page_content (Suc n) api format_block page_id fetch_all page_size start_cursor =
        Some (sent, r)) \<and>
   (get_page_content n api format_block page_id fetch_all page_size start_cursor =
      Some (sent, r) \<and> q \<in> set sent \<longrightarrow>
      get_page_content n (api(q := Inl e')) format_block page_id fetch_all page_size
        start_cursor =
      Some (takeWhile (\<lambda>x. x \<noteq> q) sent @ [q], Inl e')) \<and>
   get_page_content n api format_block page_id (Some False) page_size start_cursor =
     Some ([(filter (\<lambda>c. c \<noteq> 45) page_id,
             min (case page_size of Some s \<Rightarrow> s | None \<Rightarrow> 100) 100, start_cursor)],
           (case api (filter (\<lambda>c. c \<noteq> 45) page_id,
                      min (case page_size of Some s \<Rightarrow> s | None \<Rightarrow> 100) 100, start_cursor) of
              Inl e \<Rightarrow> Inl e
            | Inr data \<Rightarrow>
                Inr [(K ''blocks'',
                        VList (map (\<lambda>block. VDict (format_block block)) (resp_results data))),
                     (K ''has_more'', VBool (resp_has_more data)),
                     (K ''next_cursor'', resp_next_cursor data)])) \<and>
   (fetch_all \<noteq> Some False \<and>
    api (filter (\<lambda>c. c \<noteq> 45) page_id,
         min (case page_size of Some s \<Rightarrow> s | None \<Rightarrow> 100) 100, None) = Inl e \<longrightarrow>
      get_page_content (Suc n) api format_block page_id fetch_all page_size start_cursor =
        Some ([(filter (\<lambda>c. c \<noteq> 45) page_id,
                min (case page_size of Some s \<Rightarrow> s | None \<Rightarrow> 100) 100, None)], Inl e))"
proof (intro conjI impI allI)
  assume res: "get_page_content n api format_block page_id fetch_all page_size start_cursor =
      Some (sent, r)"
  then have t: "traced api sent r"
    using all_traced_get_page_content [of api n format_block page_id fetch_all page_size
        start_cursor]
    by (simp add: all_traced_def)
  show "\<exists>e. r = Inl e \<and> sent \<noteq> [] \<and> api (last sent) = Inl e" if "\<exists>q\<in>set sent. isl (api q)"
    using t that by (cases r) (auto simp: traced_def)
  show "\<forall>q\<in>set sent. \<not> isl (api q)" if "r = Inr result" for result
    using t that by (simp add: traced_def)
  show "call_tool_get_page_content dumps n api format_block page_id fetch_all page_size
      start_cursor =
      Some (lit ''Notion API Error '' @ str_int status_code @ lit '': '' @ error_body)"
    if "r = Inl (HTTPStatusError status_code error_body)" for status_code error_body
    using res that by (simp add: call_tool_get_page_content_def)
  show "get_page_content (Suc n) api format_block page_id fetch_all page_size start_cursor =
      Some (sent, r)"
    using res by (rule get_page_content_mono)
next
  assume "get_page_content n api format_block page_id fetch_all page_size start_cursor =
      Some (sent, r) \<and> q \<in> set sent"
  then show "get_page_content n (api(q := Inl e')) format_block page_id fetch_all page_size
        start_cursor =
      Some (takeWhile (\<lambda>x. x \<noteq> q) sent @ [q], Inl e')"
    using failing_at_get_page_content [of q e' n api format_block page_id fetch_all page_size
        start_cursor]
    by (simp add: failing_at_def)
next
  show "get_page_content n api format_block page_id (Some False) page_size start_cursor =
     Some ([(filter (\<lambda>c. c \<noteq> 45) page_id,
             min (case page_size of Some s \<Rightarrow> s | None \<Rightarrow> 100) 100, start_cursor)],
           (case api (filter (\<lambda>c. c \<noteq> 45) page_id,
                      min (case page_size of Some s \<Rightarrow> s | None \<Rightarrow> 100) 100, start_cursor) of
              Inl e \<Rightarrow> Inl e
            | Inr data \<Rightarrow>
                Inr [(K ''blocks'',
                        VList (map (\<lambda>block. VDict (format_block block)) (resp_results data))),
                     (K ''has_more'', VBool (resp_has_more data)),
                     (K ''next_cursor'', resp_next_cursor data)]))"
    by (rule get_page_content_single_page)
next
  assume "fetch_all \<noteq> Some False \<and>
    api (filter (\<lambda>c. c \<noteq> 45) page_id,
         min (case page_size of Some s \<Rightarrow> s | None \<Rightarrow> 100) 100, None) = Inl e"
  then have "fetch_all \<noteq> Some False"
    and "api (filter (\<lambda>c. c \<noteq> 45) page_id,
         min (case page_size of Some s \<Rightarrow> s | None \<Rightarrow> 100) 100, None) = Inl e"
    by simp_all
  then show "get_page_content (Suc n) api format_block page_id fetch_all page_size start_cursor =
        Some ([(filter (\<lambda>c. c \<noteq> 45) page_id,
                min (case page_size of Some s \<Rightarrow> s | None \<Rightarrow> 100) 100, None)], Inl e)"
    by (rule get_page_content_root_fails)
qed

theorem eager_traversal_failure_witness:
  "get_page_content 2 scenario_api scenario_format (lit ''root'') None None None =
     Some ([(lit ''root'', 100, None), (lit ''mid'', 100, None)],
           Inl (HTTPStatusError 502 (lit ''bad gateway''))) \<and>
   \<not> isl (scenario_api (lit ''root'', 100, None)) \<and>
   isl (scenario_api (lit ''mid'', 100, None)) \<and>
   call_tool_get_page_content scenario_dumps 2 scenario_api scenario_format (lit ''root'')
     None None None = Some (lit ''Notion API Error 502: bad gateway'') \<and>
   get_page_content 3 scenario_api scenario_format (lit ''root'') None None None =
     Some ([(lit ''root'', 100, None), (lit ''mid'', 100, None)],
           Inl (HTTPStatusError 502 (lit ''bad gateway''))) \<and>
   get_page_content 2 scenario_api_ok scenario_format (lit ''root'') None None None =
     Some ([(lit ''root'', 100, None), (lit ''mid'', 100, None)],
           Inr [(K ''blocks'',
                 VList [VDict [(K ''id'', K ''first'')],
                        VDict [(K ''id'', K ''mid''), (K ''children'', VList [])]])]) \<and>
   get_page_content 2
     (scenario_api_ok((lit ''mid'', 100, None) := Inl (HTTPStatusError 502 (lit ''bad gateway''))))
     scenario_format (lit ''root'') None None None =
     Some ([(lit ''root'', 100, None), (lit ''mid'', 100, None)],
           Inl (HTTPStatusError 502 (lit ''bad gateway'')))"
proof -
  have msg: "lit ''Notion API Error '' @ str_int 502 @ lit '': '' @ lit ''bad gateway'' =
      lit ''Notion API Error 502: bad gateway''"
    by (simp add: str_int_def digits.simps lit_def)
  have upstream: "\<not> isl (scenario_api (lit ''root'', 100, None))"
    "isl (scenario_api (lit ''mid'', 100, None))"
    by (simp_all add: scenario_api_def lit_def)
  have three: "Suc 2 = 3" by simp
  from eager_traversal_failure [where n = 2 and api = scenario_api
      and format_block = scenario_format and page_id = "lit ''root''" and fetch_all = None
      and page_size = None and start_cursor = None
      and sent = "[(lit ''root'', 100, None), (lit ''mid'', 100, None)]"
      and r = "Inl (HTTPStatusError 502 (lit ''bad gateway''))" and dumps = scenario_dumps]
    scenario_traversal
  have "call_tool_get_page_content scenario_dumps 2 scenario_api scenario_format (lit ''root'')
      None None None =
      Some (lit ''Notion API Error '' @ str_int 502 @ lit '': '' @ lit ''bad gateway'')"
    and "get_page_content (Suc 2) scenario_api scenario_format (lit ''root'') None None None =
      Some ([(lit ''root'', 100, None), (lit ''mid'', 100, None)],
            Inl (HTTPStatusError 502 (lit ''bad gateway'')))"
    by blast+
  then have first: "call_tool_get_page_content scenario_dumps 2 scenario_api scenario_format
      (lit ''root'') None None None = Some (lit ''Notion API Error 502: bad gateway'')"
    "get_page_content 3 scenario_api scenario_format (lit ''root'') None None None =
      Some ([(lit ''root'', 100, None), (lit ''mid'', 100, None)],
            Inl (HTTPStatusError 502 (lit ''bad gateway'')))"
    unfolding msg three by blast+
  have cut: "takeWhile (\<lambda>x. x \<noteq> (lit ''mid'', 100::int, None::pyval option))
      [(lit ''root'', 100, None), (lit ''mid'', 100, None)] @ [(lit ''mid'', 100, None)] =
      [(lit ''root'', 100, None), (lit ''mid'', 100, None)]"
    by (simp add: lit_def)
  from eager_traversal_failure [where n = 2 and api = scenario_api_ok
      and format_block = scenario_format and page_id = "lit ''root''" and fetch_all = None
      and page_size = None and start_cursor = None
      and sent = "[(lit ''root'', 100, None), (lit ''mid'', 100, None)]"
      and r = "Inr [(K ''blocks'',
                 VList [VDict [(K ''id'', K ''first'')],
                        VDict [(K ''id'', K ''mid''), (K ''children'', VList [])]])]"
      and q = "(lit ''mid'', 100, None)"
      and e' = "HTTPStatusError 502 (lit ''bad gateway'')"]
    scenario_ok_traversal
  have "get_page_content 2
      (scenario_api_ok((lit ''mid'', 100, None) := Inl (HTTPStatusError 502 (lit ''bad gateway''))))
      scenario_format (lit ''root'') None None None =
      Some (takeWhile (\<lambda>x. x \<noteq> (lit ''mid'', 100, None))
              [(lit ''root'', 100, None), (lit ''mid'', 100, None)] @ [(lit ''mid'', 100, None)],
            Inl (HTTPStatusError 502 (lit ''bad gateway'')))"
    by simp
  then have second: "get_page_content 2
      (scenario_api_ok((lit ''mid'', 100, None) := Inl (HTTPStatusError 502 (lit ''bad gateway''))))
      scenario_format (lit ''root'') None None None =
      Some ([(lit ''root'', 100, None), (lit ''mid'', 100, None)],
            Inl (HTTPStatusError 502 (lit ''bad gateway'')))"
    unfolding cut .
  from first second scenario_traversal scenario_ok_traversal upstream show ?thesis by blast
qed

end
